theory Spec2Isabelle
  imports Main
begin

section \<open>Python values used by \<^verbatim>\<open>bump_version.py\<close>\<close>

text \<open>
  Python strings are modelled as \<^typ>\<open>string\<close>, one \<^typ>\<open>char\<close> per code point
  (code points below 256). Python integers are unbounded and are modelled as \<^typ>\<open>int\<close>.
  An exception is a value of type \<open>error\<close>; a function that can raise returns
  \<open>error + 'a\<close>, with \<open>Inl\<close> for the exception.
\<close>

datatype value_error =
    InvalidLiteral string      \<comment> \<open>\<^verbatim>\<open>int(s)\<close> on a string that is no integer literal\<close>
  | DigitLimit                 \<comment> \<open>\<^verbatim>\<open>int(s)\<close> or \<^verbatim>\<open>str(n)\<close> beyond the limit on the number of digits\<close>
  | InvalidBumpType string     \<comment> \<open>\<^verbatim>\<open>raise ValueError(f"Invalid bump type: {bump_type}")\<close>\<close>
  | VersionNotFound string     \<comment> \<open>\<^verbatim>\<open>raise ValueError("Could not find version in ...")\<close>\<close>

datatype error =
    ValueError value_error
  | IndexError                 \<comment> \<open>list index out of range\<close>
  | TemplateError              \<comment> \<open>\<^verbatim>\<open>re.sub\<close> rejects its replacement template\<close>
  | CalledProcessError         \<comment> \<open>\<^verbatim>\<open>subprocess.run(..., check=True)\<close>, non-zero exit\<close>
  | SystemExit nat             \<comment> \<open>\<^verbatim>\<open>sys.exit(n)\<close>\<close>

definition ebind :: "error + 'a \<Rightarrow> ('a \<Rightarrow> error + 'b) \<Rightarrow> error + 'b" where
  "ebind r f = (case r of Inl e \<Rightarrow> Inl e | Inr x \<Rightarrow> f x)"

subsection \<open>\<^verbatim>\<open>str.split(sep)\<close> for a one-character separator\<close>

fun split_on :: "char \<Rightarrow> string \<Rightarrow> string list" where
  "split_on sep [] = [[]]"
| "split_on sep (c # cs) =
     (if c = sep then [] # split_on sep cs
      else (case split_on sep cs of
              w # ws \<Rightarrow> (c # w) # ws
            | [] \<Rightarrow> [[c]]))"

text \<open>The inverse, \<^verbatim>\<open>sep.join(parts)\<close>, is used to state properties only.\<close>

fun join_on :: "char \<Rightarrow> string list \<Rightarrow> string" where
  "join_on sep [] = []"
| "join_on sep [w] = w"
| "join_on sep (w # ws) = w @ sep # join_on sep ws"

subsection \<open>\<^verbatim>\<open>int(s)\<close> and \<^verbatim>\<open>str(n)\<close>\<close>

definition is_digit :: "char \<Rightarrow> bool" where
  "is_digit c = (48 \<le> (of_char c :: nat) \<and> (of_char c :: nat) \<le> 57)"

definition digit_val :: "char \<Rightarrow> nat" where
  "digit_val c = of_char c - 48"

text \<open>The value of a string of decimal digits, most significant digit first.\<close>

definition dec_value :: "string \<Rightarrow> nat" where
  "dec_value ds = foldl (\<lambda>acc c. 10 * acc + digit_val c) 0 ds"

text \<open>
  The characters \<^verbatim>\<open>int\<close> skips at both ends of its argument: tab, line feed,
  vertical tab, form feed, carriage return, space, and (among the code points below 256)
  U+0085 and U+00A0.
\<close>

definition int_space :: "char \<Rightarrow> bool" where
  "int_space c = (c \<in> set [CHR 0x09, CHR 0x0A, CHR 0x0B, CHR 0x0C, CHR 0x0D, CHR 0x20,
                            CHR 0x85, CHR 0xA0])"

definition trim :: "(char \<Rightarrow> bool) \<Rightarrow> string \<Rightarrow> string" where
  "trim sp s = rev (dropWhile sp (rev (dropWhile sp s)))"

text \<open>
  The interpreter limits the number of digits of a conversion between \<^verbatim>\<open>int\<close> and
  \<^verbatim>\<open>str\<close> in base 10: \<^verbatim>\<open>sys.get_int_max_str_digits()\<close>, 4300 unless it is configured
  otherwise. Beyond it, \<^verbatim>\<open>int(s)\<close> and \<^verbatim>\<open>str(n)\<close> raise a \<^verbatim>\<open>ValueError\<close>.
\<close>

definition max_str_digits :: nat where
  "max_str_digits = 4300"

text \<open>
  After the optional sign comes a run of decimal digits, where single underscores may
  separate digits: every underscore-separated group must be a non-empty run of digits.
\<close>

definition digit_groups :: "string \<Rightarrow> nat option" where
  "digit_groups body =
     (let gs = split_on (CHR ''_'') body
      in if list_all (\<lambda>g. g \<noteq> [] \<and> list_all is_digit g) gs
         then Some (dec_value (concat gs)) else None)"

text \<open>
  \<^verbatim>\<open>int(s)\<close> skips white space, reads the sign, then scans digits and underscores as far
  as they go. A misplaced underscore in that run, or an empty run, is an invalid
  literal; then a run of more digits than the limit is refused; then anything but
  white space after the run is an invalid literal.
\<close>

definition py_int :: "string \<Rightarrow> error + int" where
  "py_int s =
     (let t = trim int_space s;
          (neg, body) = (case t of
                           c # r \<Rightarrow> if c = CHR ''-'' then (True, r)
                                    else if c = CHR ''+'' then (False, r)
                                    else (False, t)
                         | [] \<Rightarrow> (False, t));
          run = takeWhile (\<lambda>c. is_digit c \<or> c = CHR ''_'') body
      in case digit_groups run of
           None \<Rightarrow> Inl (ValueError (InvalidLiteral s))
         | Some n \<Rightarrow>
             if max_str_digits < length (filter is_digit run) then Inl (ValueError DigitLimit)
             else if run \<noteq> body then Inl (ValueError (InvalidLiteral s))
             else Inr (if neg then - int n else int n))"

text \<open>\<^verbatim>\<open>list(map(int, xs))\<close>: the first element that is no literal raises.\<close>

fun map_int :: "string list \<Rightarrow> error + int list" where
  "map_int [] = Inr []"
| "map_int (s # ss) =
     ebind (py_int s) (\<lambda>n. ebind (map_int ss) (\<lambda>ns. Inr (n # ns)))"

fun str_nat :: "nat \<Rightarrow> string" where
  "str_nat n = (if n < 10 then [char_of (48 + n)]
                else str_nat (n div 10) @ [char_of (48 + n mod 10)])"

declare str_nat.simps [simp del]

text \<open>\<^verbatim>\<open>str(i)\<close>, also behind \<^verbatim>\<open>f"{i}"\<close>: the sign does not count as a digit.\<close>

definition py_str :: "int \<Rightarrow> error + string" where
  "py_str i =
     (if max_str_digits < length (str_nat (nat \<bar>i\<bar>)) then Inl (ValueError DigitLimit)
      else Inr (if i < 0 then CHR ''-'' # str_nat (nat (- i)) else str_nat (nat i)))"

subsection \<open>List indexing with \<^verbatim>\<open>IndexError\<close>\<close>

text \<open>The source indexes with the constants 0, 1 and 2 only.\<close>

definition get_item :: "'a list \<Rightarrow> nat \<Rightarrow> error + 'a" where
  "get_item xs i = (if i < length xs then Inr (xs ! i) else Inl IndexError)"

definition set_item :: "'a list \<Rightarrow> nat \<Rightarrow> 'a \<Rightarrow> error + 'a list" where
  "set_item xs i v = (if i < length xs then Inr (xs[i := v]) else Inl IndexError)"

text \<open>\<^verbatim>\<open>parts[i] += d\<close> reads the element, then stores the sum.\<close>

definition add_item :: "int list \<Rightarrow> nat \<Rightarrow> int \<Rightarrow> error + int list" where
  "add_item xs i d = ebind (get_item xs i) (\<lambda>v. set_item xs i (v + d))"

section \<open>\<^verbatim>\<open>bump_version\<close>\<close>

text \<open>\<^verbatim>\<open>f"{parts[0]}.{parts[1]}.{parts[2]}"\<close>\<close>

definition format_version :: "int list \<Rightarrow> error + string" where
  "format_version parts =
     ebind (get_item parts 0) (\<lambda>a.
     ebind (py_str a) (\<lambda>sa.
     ebind (get_item parts 1) (\<lambda>b.
     ebind (py_str b) (\<lambda>sb.
     ebind (get_item parts 2) (\<lambda>c.
     ebind (py_str c) (\<lambda>sc.
       Inr (sa @ ''.'' @ sb @ ''.'' @ sc)))))))"

definition bump_version :: "string \<Rightarrow> string \<Rightarrow> error + string" where
  "bump_version current_version bump_type =
     ebind (map_int (split_on (CHR ''.'') current_version)) (\<lambda>parts.
       if bump_type = ''major'' then
         ebind (add_item parts 0 1) (\<lambda>p1.
         ebind (set_item p1 1 0) (\<lambda>p2.
         ebind (set_item p2 2 0) format_version))
       else if bump_type = ''minor'' then
         ebind (add_item parts 1 1) (\<lambda>p1.
         ebind (set_item p1 2 0) format_version)
       else if bump_type = ''patch'' then
         ebind (add_item parts 2 1) format_version
       else Inl (ValueError (InvalidBumpType bump_type)))"

section \<open>\<^verbatim>\<open>determine_bump_type\<close>\<close>

text \<open>\<^verbatim>\<open>s.startswith(p)\<close> and the substring test \<^verbatim>\<open>sub in s\<close>.\<close>

fun starts_with :: "string \<Rightarrow> string \<Rightarrow> bool" where
  "starts_with [] s = True"
| "starts_with (p # ps) [] = False"
| "starts_with (p # ps) (c # cs) = (p = c \<and> starts_with ps cs)"

fun py_in :: "string \<Rightarrow> string \<Rightarrow> bool" where
  "py_in sub [] = (sub = [])"
| "py_in sub (c # cs) = (starts_with sub (c # cs) \<or> py_in sub cs)"

text \<open>The result \<^verbatim>\<open>None\<close> ("no version bump needed") is \<^term>\<open>None\<close>.\<close>

definition determine_bump_type :: "string list \<Rightarrow> string option" where
  "determine_bump_type commits =
     (let has_breaking = list_ex (\<lambda>commit. py_in ''!'' commit) commits;
          has_feat = list_ex (\<lambda>commit. py_in ''feat:'' commit \<or> py_in ''feat('' commit) commits;
          has_fix_or_perf =
            list_ex (\<lambda>commit. list_ex (\<lambda>keyword. py_in keyword commit)
                                  [''fix:'', ''fix('', ''perf:'', ''perf(''])
                    commits
      in if has_breaking then Some ''major''
         else if has_feat then Some ''minor''
         else if has_fix_or_perf then Some ''patch''
         else None)"

section \<open>The regular expressions of the script\<close>

text \<open>
  The script uses three regular expressions, all of one shape: a literal, a quote
  character out of a class \<open>qs\<close>, one or more characters outside \<open>qs\<close>, a quote
  character out of \<open>qs\<close> again, and a literal suffix:
  \<^item> \<^verbatim>\<open>__version__ = ["\'][^"\']+["\']\<close> (read and write of \<^verbatim>\<open>__init__.py\<close>),
  \<^item> \<^verbatim>\<open>version="[^"]+"\<close> (read of \<^verbatim>\<open>setup.py\<close>, write in \<^verbatim>\<open>sync_versions\<close>),
  \<^item> \<^verbatim>\<open>version="[^"]+",\<close> (write of \<^verbatim>\<open>setup.py\<close> in \<^verbatim>\<open>update_version_files\<close>).
  The read patterns put the run between the quotes in group 1. The greedy run takes
  every character up to the next quote; a shorter run would be followed by a character
  that is no quote, so backtracking finds no other match at the same position.
\<close>

datatype pattern = Quoted string "char list" string

definition init_re :: pattern where
  "init_re = Quoted ''__version__ = '' [CHR 0x22, CHR 0x27] []"

definition setup_re :: pattern where
  "setup_re = Quoted ''version='' [CHR 0x22] []"

definition setup_comma_re :: pattern where
  "setup_comma_re = Quoted ''version='' [CHR 0x22] '',''"

fun strip_prefix :: "string \<Rightarrow> string \<Rightarrow> string option" where
  "strip_prefix [] s = Some s"
| "strip_prefix (p # ps) [] = None"
| "strip_prefix (p # ps) (c # cs) = (if p = c then strip_prefix ps cs else None)"

text \<open>
  A match at the start of \<open>s\<close>: the matched text, group 1 and the text after the match.
\<close>

fun match_at :: "pattern \<Rightarrow> string \<Rightarrow> (string \<times> string \<times> string) option" where
  "match_at (Quoted lit qs suf) s =
     (case strip_prefix lit s of
        None \<Rightarrow> None
      | Some t \<Rightarrow>
          (case t of
             [] \<Rightarrow> None
           | q # u \<Rightarrow>
               if q \<notin> set qs then None
               else
                 let g = takeWhile (\<lambda>c. c \<notin> set qs) u;
                     r = dropWhile (\<lambda>c. c \<notin> set qs) u
                 in if g = [] then None
                    else (case r of
                            [] \<Rightarrow> None
                          | q' # r' \<Rightarrow>
                              (case strip_prefix suf r' of
                                 None \<Rightarrow> None
                               | Some rest \<Rightarrow> Some (lit @ q # g @ q' # suf, g, rest)))))"

text \<open>
  \<^verbatim>\<open>re.search\<close>: the leftmost match, as the text before it, the matched text, group 1
  and the text after it. No pattern of the script matches the empty string.
\<close>

fun re_search :: "pattern \<Rightarrow> string \<Rightarrow> (string \<times> string \<times> string \<times> string) option" where
  "re_search p [] = None"
| "re_search p (c # cs) =
     (case match_at p (c # cs) of
        Some (m, g, rest) \<Rightarrow> Some ([], m, g, rest)
      | None \<Rightarrow> map_option (\<lambda>(pre, m, g, rest). (c # pre, m, g, rest)) (re_search p cs))"

subsection \<open>Replacement templates of \<^verbatim>\<open>re.sub\<close>\<close>

text \<open>
  \<^verbatim>\<open>re.sub\<close> reads its replacement string as a template (\<^verbatim>\<open>parse_template\<close> of the
  \<^verbatim>\<open>re\<close> module, here as of Python 3.12): a string without a backslash stands for
  itself; \<^verbatim>\<open>\a \b \f \n \r \t \v \\\<close> stand for one character; \<^verbatim>\<open>\0\<close> with up to two
  more octal digits and three octal digits are a character code; \<^verbatim>\<open>\g<0>\<close> is the
  whole match; a reference to any other group is an error, since the patterns that
  are substituted have no group; a backslash before any other ASCII letter, or at the
  end, is an error; a backslash before anything else stays.
  The exceptions raised for a bad template (\<^verbatim>\<open>re.error\<close>, \<^verbatim>\<open>IndexError\<close> for an unknown
  group name) are both \<^term>\<open>TemplateError\<close>: none is a \<^verbatim>\<open>ValueError\<close>.
\<close>

datatype titem = TChar char | TWhole

definition is_octal :: "char \<Rightarrow> bool" where
  "is_octal c = (48 \<le> (of_char c :: nat) \<and> (of_char c :: nat) \<le> 55)"

definition oct_value :: "string \<Rightarrow> nat" where
  "oct_value ds = foldl (\<lambda>acc c. 8 * acc + digit_val c) 0 ds"

definition ascii_letter :: "char \<Rightarrow> bool" where
  "ascii_letter c = ((65 \<le> (of_char c :: nat) \<and> (of_char c :: nat) \<le> 90) \<or>
                     (97 \<le> (of_char c :: nat) \<and> (of_char c :: nat) \<le> 122))"

definition escapes :: "(char \<times> char) list" where
  "escapes = [(CHR ''a'', CHR 0x07), (CHR ''b'', CHR 0x08), (CHR ''f'', CHR 0x0C),
              (CHR ''n'', CHR 0x0A), (CHR ''r'', CHR 0x0D), (CHR ''t'', CHR 0x09),
              (CHR ''v'', CHR 0x0B), (CHR 0x5C, CHR 0x5C)]"

definition tlit :: "char \<Rightarrow> titem list option \<Rightarrow> titem list option" where
  "tlit c r = map_option (\<lambda>t. TChar c # t) r"

lemma length_after_name:
  "length (dropWhile P xs) - Suc 0 \<le> Suc (Suc (length xs))"
  using length_dropWhile_le[of P xs] by arith

function parse_template :: "string \<Rightarrow> titem list option" where
  "parse_template [] = Some []"
| "parse_template (c # cs) =
     (if c \<noteq> CHR 0x5C then tlit c (parse_template cs)
      else case cs of
        [] \<Rightarrow> None
      | d # ds \<Rightarrow>
          if d = CHR ''g'' then
            (case ds of
               [] \<Rightarrow> None
             | l # es \<Rightarrow>
                 if l \<noteq> CHR ''<'' then None
                 else if dropWhile (\<lambda>x. x \<noteq> CHR ''>'') es = [] then None
                 else if takeWhile (\<lambda>x. x \<noteq> CHR ''>'') es = [] then None
                 else if \<not> list_all is_digit (takeWhile (\<lambda>x. x \<noteq> CHR ''>'') es) then None
                 else if dec_value (takeWhile (\<lambda>x. x \<noteq> CHR ''>'') es) \<noteq> 0 then None
                 else map_option (\<lambda>t. TWhole # t)
                        (parse_template (tl (dropWhile (\<lambda>x. x \<noteq> CHR ''>'') es))))
          else if d = CHR ''0'' then
            tlit (char_of (oct_value (takeWhile is_octal (take 2 ds)) mod 256))
                (parse_template (drop (length (takeWhile is_octal (take 2 ds))) ds))
          else if is_digit d then
            (case ds of
               d2 # d3 # rest \<Rightarrow>
                 if is_octal d \<and> is_octal d2 \<and> is_octal d3 then
                   (if oct_value [d, d2, d3] > 255 then None
                    else tlit (char_of (oct_value [d, d2, d3])) (parse_template rest))
                 else None
             | _ \<Rightarrow> None)
          else (case map_of escapes d of
                  Some e \<Rightarrow> tlit e (parse_template ds)
                | None \<Rightarrow>
                    if ascii_letter d then None
                    else tlit c (tlit d (parse_template ds))))"
  by pat_completeness auto
termination
  by (relation "measure length")
     (auto simp: le_imp_less_Suc less_Suc_eq_le length_after_name)

definition expand :: "titem list \<Rightarrow> string \<Rightarrow> string" where
  "expand t m = concat (map (\<lambda>i. case i of TChar c \<Rightarrow> [c] | TWhole \<Rightarrow> m) t)"

text \<open>
  \<^verbatim>\<open>re.sub\<close> replaces every match, leftmost first, and goes on after the end of each
  match. While \<open>k\<close> characters of the last match are still ahead, they are skipped.
\<close>

fun sub_from :: "pattern \<Rightarrow> titem list \<Rightarrow> nat \<Rightarrow> string \<Rightarrow> string" where
  "sub_from p t k [] = []"
| "sub_from p t (Suc k) (c # cs) = sub_from p t k cs"
| "sub_from p t 0 (c # cs) =
     (case match_at p (c # cs) of
        Some (m, g, rest) \<Rightarrow> expand t m @ sub_from p t (length m - 1) cs
      | None \<Rightarrow> c # sub_from p t 0 cs)"

definition re_sub :: "pattern \<Rightarrow> string \<Rightarrow> string \<Rightarrow> error + string" where
  "re_sub p repl s =
     (case parse_template repl of
        None \<Rightarrow> Inl TemplateError
      | Some t \<Rightarrow> Inr (sub_from p t 0 s))"

section \<open>Files, output and version control\<close>

text \<open>
  The state the script works on: the content of the files \<^verbatim>\<open>basicmicro/__init__.py\<close>
  and \<^verbatim>\<open>setup.py\<close>, the line separator of the platform (\<^verbatim>\<open>os.linesep\<close>), the lines
  printed so far, and the version-control commands that changed the repository so
  far. The content of a file is the sequence of its characters as stored, line ends
  included as they are; both files exist, are readable and decode in the default
  encoding, and encoding is the inverse of decoding. Every \<^verbatim>\<open>print\<close> of the script is
  one constructor of \<open>line\<close>, with the values it interpolates.
\<close>

datatype line =
    MismatchDetected             \<comment> \<open>\<^verbatim>\<open>Version mismatch detected:\<close>\<close>
  | InitIs string                \<comment> \<open>\<^verbatim>\<open>  __init__.py: {init_version}\<close>\<close>
  | SetupIs string               \<comment> \<open>\<^verbatim>\<open>  setup.py:    {setup_version}\<close>\<close>
  | Syncing                      \<comment> \<open>\<^verbatim>\<open>Syncing setup.py to match __init__.py...\<close>\<close>
  | UpdatedSetup string          \<comment> \<open>\<^verbatim>\<open>Updated setup.py version to {init_version}\<close>\<close>
  | InSync string                \<comment> \<open>\<^verbatim>\<open>Versions already in sync: {init_version}\<close>\<close>
  | Warning value_error          \<comment> \<open>\<^verbatim>\<open>Warning: {e}\<close>\<close>
  | Usage                        \<comment> \<open>\<^verbatim>\<open>Usage: python bump_version.py [major|minor|patch|sync]\<close>\<close>
  | SyncCompleted                \<comment> \<open>\<^verbatim>\<open>Version sync completed successfully\<close>\<close>
  | AlreadyInSync                \<comment> \<open>\<^verbatim>\<open>Versions were already in sync\<close>\<close>
  | NoBumpSynced                 \<comment> \<open>\<^verbatim>\<open>Version sync completed, but no version bump needed ...\<close>\<close>
  | NoBump                       \<comment> \<open>\<^verbatim>\<open>No version bump needed ...\<close>\<close>
  | Bumping string string string \<comment> \<open>\<^verbatim>\<open>Bumping version from {current} to {new} ({bump_type})\<close>\<close>
  | UpdatedVersion string        \<comment> \<open>\<^verbatim>\<open>Updated version to {new_version} in:\<close>\<close>
  | FileLine string              \<comment> \<open>\<^verbatim>\<open>  - {file}\<close>\<close>
  | CreatedTag string            \<comment> \<open>\<^verbatim>\<open>Created tag: {tag_name}\<close>\<close>
  | Bumped string                \<comment> \<open>\<^verbatim>\<open>Version successfully bumped to {new_version}\<close>\<close>

datatype git_cmd = GitAdd | GitCommit string | GitTag string

record world =
  init_py :: string
  setup_py :: string
  linesep :: string
  stdout :: "line list"
  git_done :: "git_cmd list"

definition print :: "line \<Rightarrow> world \<Rightarrow> world" where
  "print l w = w\<lparr>stdout := stdout w @ [l]\<rparr>"

text \<open>
  \<^verbatim>\<open>Path.read_text()\<close> opens the file in text mode with universal newlines: a carriage
  return followed by a line feed, and a carriage return alone, are read as one line
  feed.
\<close>

fun read_text :: "string \<Rightarrow> string" where
  "read_text [] = []"
| "read_text [c] = (if c = CHR 0x0D then [CHR 0x0A] else [c])"
| "read_text (c # d # ds) =
     (if c = CHR 0x0D \<and> d = CHR 0x0A then CHR 0x0A # read_text ds
      else if c = CHR 0x0D then CHR 0x0A # read_text (d # ds)
      else c # read_text (d # ds))"

text \<open>
  \<^verbatim>\<open>Path.write_text(data)\<close> replaces the whole file and writes every line feed of the
  text as the line separator of the platform.
\<close>

definition write_text :: "string \<Rightarrow> string \<Rightarrow> string" where
  "write_text sep data = concat (map (\<lambda>c. if c = CHR 0x0A then sep else [c]) data)"

text \<open>
  The version-control commands are inputs: for each command that the script runs with
  \<^verbatim>\<open>check=True\<close>, either its standard output as \<^verbatim>\<open>result.stdout\<close> holds it, or
  \<^term>\<open>None\<close> for a non-zero exit.
\<close>

record git =
  describe_tags :: "string option"          \<comment> \<open>\<^verbatim>\<open>git describe --tags --abbrev=0\<close>\<close>
  log_range :: "string \<Rightarrow> string option"    \<comment> \<open>\<^verbatim>\<open>git log <range> --oneline\<close>\<close>
  log_all :: "string option"                \<comment> \<open>\<^verbatim>\<open>git log --oneline\<close>\<close>
  add_ok :: bool                            \<comment> \<open>\<^verbatim>\<open>git add basicmicro/__init__.py setup.py\<close>\<close>
  commit_ok :: bool                         \<comment> \<open>\<^verbatim>\<open>git commit -m ...\<close>\<close>
  tag_ok :: bool                            \<comment> \<open>\<^verbatim>\<open>git tag <name>\<close>\<close>

section \<open>Reading the versions\<close>

definition get_current_version :: "world \<Rightarrow> error + string" where
  "get_current_version w =
     (case re_search init_re (read_text (init_py w)) of
        None \<Rightarrow> Inl (ValueError (VersionNotFound ''__init__.py''))
      | Some (pre, m, g, rest) \<Rightarrow> Inr g)"

definition get_setup_version :: "world \<Rightarrow> error + string" where
  "get_setup_version w =
     (case re_search setup_re (read_text (setup_py w)) of
        None \<Rightarrow> Inl (ValueError (VersionNotFound ''setup.py''))
      | Some (pre, m, g, rest) \<Rightarrow> Inr g)"

section \<open>\<^verbatim>\<open>sync_versions\<close>\<close>

text \<open>
  A function that changes the state returns its result, or the exception it raises,
  with the state it leaves behind. The body of the \<^verbatim>\<open>try\<close> block comes first.
\<close>

definition sync_try :: "string \<Rightarrow> world \<Rightarrow> (error + bool) \<times> world" where
  "sync_try init_version w =
     (case get_setup_version w of
        Inl e \<Rightarrow> (Inl e, w)
      | Inr setup_version \<Rightarrow>
          if init_version \<noteq> setup_version then
            (let w1 = print Syncing (print (SetupIs setup_version)
                        (print (InitIs init_version) (print MismatchDetected w)))
             in case re_sub setup_re (''version='' @ [CHR 0x22] @ init_version @ [CHR 0x22])
                       (read_text (setup_py w1)) of
                  Inl e \<Rightarrow> (Inl e, w1)
                | Inr content \<Rightarrow>
                    (Inr True, print (UpdatedSetup init_version)
                                 (w1\<lparr>setup_py := write_text (linesep w1) content\<rparr>)))
          else (Inr False, print (InSync init_version) w))"

definition sync_versions :: "world \<Rightarrow> (error + bool) \<times> world" where
  "sync_versions w =
     (case get_current_version w of
        Inl e \<Rightarrow> (Inl e, w)
      | Inr init_version \<Rightarrow>
          (case sync_try init_version w of
             (Inl (ValueError e), w') \<Rightarrow> (Inr False, print (Warning e) w')
           | r \<Rightarrow> r))"

section \<open>\<^verbatim>\<open>update_version_files\<close>\<close>

definition update_version_files :: "string \<Rightarrow> world \<Rightarrow> (error + unit) \<times> world" where
  "update_version_files new_version w =
     (case re_sub init_re (''__version__ = '' @ [CHR 0x22] @ new_version @ [CHR 0x22])
             (read_text (init_py w)) of
        Inl e \<Rightarrow> (Inl e, w)
      | Inr content \<Rightarrow>
          (let w1 = w\<lparr>init_py := write_text (linesep w) content\<rparr>
           in case re_sub setup_comma_re
                     (''version='' @ [CHR 0x22] @ new_version @ [CHR 0x22] @ '','')
                     (read_text (setup_py w1)) of
                Inl e \<Rightarrow> (Inl e, w1)
              | Inr content' \<Rightarrow>
                  (Inr (), print (FileLine ''setup.py'')
                             (print (FileLine ''basicmicro/__init__.py'')
                               (print (UpdatedVersion new_version)
                                 (w1\<lparr>setup_py := write_text (linesep w1) content'\<rparr>))))))"

section \<open>\<^verbatim>\<open>get_commits_since_last_tag\<close>\<close>

text \<open>
  \<^verbatim>\<open>str.strip()\<close> removes the characters of \<^verbatim>\<open>str.isspace\<close> at both ends: below 256
  these are U+0009 to U+000D, U+001C to U+0020, U+0085 and U+00A0.
\<close>

definition str_space :: "char \<Rightarrow> bool" where
  "str_space c = (c \<in> set [CHR 0x09, CHR 0x0A, CHR 0x0B, CHR 0x0C, CHR 0x0D, CHR 0x1C,
                            CHR 0x1D, CHR 0x1E, CHR 0x1F, CHR 0x20, CHR 0x85, CHR 0xA0])"

text \<open>\<^verbatim>\<open>out.strip().split('\n') if out.strip() else []\<close>\<close>

definition commit_lines :: "string \<Rightarrow> string list" where
  "commit_lines out =
     (if trim str_space out \<noteq> [] then split_on (CHR 0x0A) (trim str_space out) else [])"

text \<open>
  The handler of \<^verbatim>\<open>except subprocess.CalledProcessError\<close>; an exception raised
  inside it propagates.
\<close>

definition all_commits :: "git \<Rightarrow> error + string list" where
  "all_commits g =
     (case log_all g of
        None \<Rightarrow> Inl CalledProcessError
      | Some out \<Rightarrow> Inr (commit_lines out))"

definition get_commits_since_last_tag :: "git \<Rightarrow> error + string list" where
  "get_commits_since_last_tag g =
     (case describe_tags g of
        None \<Rightarrow> all_commits g
      | Some out \<Rightarrow>
          (let last_tag = trim str_space out
           in case log_range g (last_tag @ ''..HEAD'') of
                None \<Rightarrow> all_commits g
              | Some out' \<Rightarrow> Inr (commit_lines out')))"

section \<open>\<^verbatim>\<open>main\<close>\<close>

text \<open>\<^verbatim>\<open>subprocess.run(cmd, check=True)\<close> for a command that changes the repository.\<close>

definition run_git :: "bool \<Rightarrow> git_cmd \<Rightarrow> world \<Rightarrow> (error + unit) \<times> world" where
  "run_git ok cmd w =
     (if ok then (Inr (), w\<lparr>git_done := git_done w @ [cmd]\<rparr>) else (Inl CalledProcessError, w))"

text \<open>The part of \<^verbatim>\<open>main\<close> after the bump type is known (source lines 176 to 189).\<close>

definition bump_and_tag :: "string \<Rightarrow> git \<Rightarrow> world \<Rightarrow> (error + unit) \<times> world" where
  "bump_and_tag bump_type g w =
     (case get_current_version w of
        Inl e \<Rightarrow> (Inl e, w)
      | Inr current_version \<Rightarrow>
     (case bump_version current_version bump_type of
        Inl e \<Rightarrow> (Inl e, w)
      | Inr new_version \<Rightarrow>
     (case update_version_files new_version
             (print (Bumping current_version new_version bump_type) w) of
        (Inl e, w1) \<Rightarrow> (Inl e, w1)
      | (Inr u, w1) \<Rightarrow>
     (case run_git (add_ok g) GitAdd w1 of
        (Inl e, w2) \<Rightarrow> (Inl e, w2)
      | (Inr u, w2) \<Rightarrow>
     (case run_git (commit_ok g) (GitCommit (''chore(release): '' @ new_version)) w2 of
        (Inl e, w3) \<Rightarrow> (Inl e, w3)
      | (Inr u, w3) \<Rightarrow>
     (case run_git (tag_ok g) (GitTag (''v'' @ new_version)) w3 of
        (Inl e, w4) \<Rightarrow> (Inl e, w4)
      | (Inr u, w4) \<Rightarrow>
          (Inr (), print (Bumped new_version) (print (CreatedTag (''v'' @ new_version)) w4))))))))"

text \<open>\<open>argv\<close> is \<^verbatim>\<open>sys.argv\<close>: the name of the script, then the arguments.\<close>

definition main :: "string list \<Rightarrow> git \<Rightarrow> world \<Rightarrow> (error + unit) \<times> world" where
  "main argv g w =
     (case sync_versions w of
        (Inl e, w1) \<Rightarrow> (Inl e, w1)
      | (Inr was_synced, w1) \<Rightarrow>
          if length argv > 1 then
            (let bump_type = argv ! 1
             in if bump_type \<notin> set [''major'', ''minor'', ''patch'', ''sync'']
                then (Inl (SystemExit 1), print Usage w1)
                else if bump_type = ''sync''
                then (Inr (), print (if was_synced then SyncCompleted else AlreadyInSync) w1)
                else bump_and_tag bump_type g w1)
          else
            (case get_commits_since_last_tag g of
               Inl e \<Rightarrow> (Inl e, w1)
             | Inr commits \<Rightarrow>
                 (case determine_bump_type commits of
                    None \<Rightarrow> (Inr (), print (if was_synced then NoBumpSynced else NoBump) w1)
                  | Some bump_type \<Rightarrow> bump_and_tag bump_type g w1)))"

section \<open>Notions used to state the properties\<close>

text \<open>A numeric component of a version string: a non-empty run of decimal digits.\<close>

definition numeric :: "string \<Rightarrow> bool" where
  "numeric s = (s \<noteq> [] \<and> list_all is_digit s)"

text \<open>The text \<^verbatim>\<open>"a.b.c"\<close> of a version with the components \<open>a\<close>, \<open>b\<close> and \<open>c\<close>.\<close>

definition version_string :: "nat \<Rightarrow> nat \<Rightarrow> nat \<Rightarrow> string" where
  "version_string a b c = str_nat a @ ''.'' @ str_nat b @ ''.'' @ str_nat c"

text \<open>A message contains a marker when the marker is a contiguous part of it.\<close>

definition contains :: "string \<Rightarrow> string \<Rightarrow> bool" where
  "contains sub s = (\<exists>pre post. s = pre @ sub @ post)"

text \<open>\<^verbatim>\<open>s.endswith(suf)\<close>\<close>

definition ends_with :: "string \<Rightarrow> string \<Rightarrow> bool" where
  "ends_with suf s = starts_with (rev suf) (rev s)"

text \<open>
  Two texts differ only in the first field of a pattern: the second keeps the text
  before the leftmost match and the text after it (the match \<^verbatim>\<open>re.search\<close> returns,
  which is where the readers take the version from).
\<close>

definition differs_only_in_first_field :: "pattern \<Rightarrow> string \<Rightarrow> string \<Rightarrow> bool" where
  "differs_only_in_first_field p old new =
     (case re_search p old of
        None \<Rightarrow> new = old
      | Some (pre, m, g, rest) \<Rightarrow>
          starts_with pre new \<and> ends_with rest new \<and> length pre + length rest \<le> length new)"

text \<open>
  A state with the two files given, on a platform whose line separator is the line
  feed, with nothing printed and no command run yet.
\<close>

definition files :: "string \<Rightarrow> string \<Rightarrow> world" where
  "files init setup =
     \<lparr>init_py = init, setup_py = setup, linesep = [CHR 0x0A], stdout = [], git_done = []\<rparr>"

text \<open>A repository in which every version-control command of the script fails.\<close>

definition no_git :: git where
  "no_git = \<lparr>describe_tags = None, log_range = (\<lambda>r. None), log_all = None,
              add_ok = False, commit_ok = False, tag_ok = False\<rparr>"

text \<open>
  A repository whose last tag is \<^verbatim>\<open>v1.0.0\<close>, in which \<^verbatim>\<open>git log v1.0.0..HEAD\<close> fails
  and \<^verbatim>\<open>git log\<close> of the whole history succeeds.
\<close>

definition log_range_fails :: git where
  "log_range_fails =
     \<lparr>describe_tags = Some (''v1.0.0'' @ [CHR 0x0A]), log_range = (\<lambda>r. None),
      log_all = Some (''abc1234 feat: first'' @ [CHR 0x0A]),
      add_ok = True, commit_ok = True, tag_ok = True\<rparr>"

section \<open>Properties of \<^verbatim>\<open>bump_version\<close>\<close>

subsection \<open>Splitting, parsing and printing numbers\<close>

lemma split_on_not_Nil: "split_on sep s \<noteq> []"
  by (induction s) (auto split: list.splits)

lemma split_on_no_sep: "sep \<notin> set w \<Longrightarrow> split_on sep w = [w]"
  by (induction w) auto

lemma split_on_append_sep:
  "sep \<notin> set w \<Longrightarrow> split_on sep (w @ sep # r) = w # split_on sep r"
  by (induction w) auto

lemma split_on_join_on:
  "ws \<noteq> [] \<Longrightarrow> \<forall>w \<in> set ws. sep \<notin> set w \<Longrightarrow> split_on sep (join_on sep ws) = ws"
proof (induction sep ws rule: join_on.induct)
  case (1 sep) then show ?case by simp
next
  case (2 sep w) then show ?case by (simp add: split_on_no_sep)
next
  case (3 sep w v vs)
  then show ?case by (simp add: split_on_append_sep)
qed



lemma dec_value_snoc: "dec_value (ds @ [c]) = 10 * dec_value ds + digit_val c"
  by (simp add: dec_value_def)





lemma digit_not_space: "is_digit c \<Longrightarrow> \<not> int_space c"
  by (auto simp: is_digit_def int_space_def)

lemma trim_numeric: "numeric s \<Longrightarrow> trim int_space s = s"
proof -
  assume n: "numeric s"
  then obtain c cs where s: "s = c # cs" by (cases s) (auto simp: numeric_def)
  from n have all: "\<forall>x \<in> set s. \<not> int_space x"
    by (auto simp: numeric_def list_all_iff digit_not_space)
  then have 1: "dropWhile int_space s = s" using s by simp
  from n obtain d ds where r: "rev s = d # ds" by (cases "rev s") (auto simp: numeric_def)
  with all have "\<not> int_space d" by (metis list.set_intros(1) set_rev)
  then have "dropWhile int_space (rev s) = rev s" using r by simp
  with 1 show ?thesis by (simp add: trim_def)
qed

lemma digit_groups_numeric: "numeric s \<Longrightarrow> digit_groups s = Some (dec_value s)"
proof -
  assume n: "numeric s"
  then have "CHR ''_'' \<notin> set s" by (auto simp: numeric_def list_all_iff is_digit_def)
  then have "split_on (CHR ''_'') s = [s]" by (rule split_on_no_sep)
  with n show ?thesis by (simp add: digit_groups_def numeric_def)
qed

lemma numeric_run:
  assumes "numeric s"
  shows "takeWhile (\<lambda>c. is_digit c \<or> c = CHR ''_'') s = s" and "filter is_digit s = s"
  using assms by (auto simp: numeric_def list_all_iff takeWhile_eq_all_conv filter_id_conv)

lemma numeric_after_trim:
  assumes n: "numeric s"
  shows "(case trim int_space s of
            c # r \<Rightarrow> if c = CHR ''-'' then (True, r)
                     else if c = CHR ''+'' then (False, r)
                     else (False, trim int_space s)
          | [] \<Rightarrow> (False, trim int_space s)) = (False, s)"
proof -
  from n obtain c cs where s: "s = c # cs" by (cases s) (auto simp: numeric_def)
  with n have "is_digit c" by (simp add: numeric_def)
  then have "c \<noteq> CHR ''-''" "c \<noteq> CHR ''+''" by (auto simp: is_digit_def)
  then show ?thesis using trim_numeric[OF n] s by simp
qed

lemma py_int_numeric:
  "numeric s \<Longrightarrow> length s \<le> max_str_digits \<Longrightarrow> py_int s = Inr (int (dec_value s))"
  by (simp add: py_int_def numeric_after_trim numeric_run digit_groups_numeric)

lemma py_int_too_long:
  "numeric s \<Longrightarrow> max_str_digits < length s \<Longrightarrow> py_int s = Inl (ValueError DigitLimit)"
  by (simp add: py_int_def numeric_after_trim numeric_run digit_groups_numeric)

text \<open>A run of 4300 digits is still converted, a run of 4301 digits is not.\<close>

lemma py_int_at_limit:
  "py_int (replicate 4300 (CHR ''1'')) = Inr (int (dec_value (replicate 4300 (CHR ''1''))))"
  "py_int (replicate 4301 (CHR ''1'')) = Inl (ValueError DigitLimit)"
proof -
  have n: "numeric (replicate k (CHR ''1''))" if "0 < k" for k
    using that by (auto simp: numeric_def list_all_iff is_digit_def)
  show "py_int (replicate 4300 (CHR ''1'')) = Inr (int (dec_value (replicate 4300 (CHR ''1''))))"
    by (rule py_int_numeric[OF n]) (simp_all add: max_str_digits_def)
  show "py_int (replicate 4301 (CHR ''1'')) = Inl (ValueError DigitLimit)"
    by (rule py_int_too_long[OF n]) (simp_all add: max_str_digits_def)
qed

lemma numeric_no_dot: "numeric s \<Longrightarrow> CHR ''.'' \<notin> set s"
  by (auto simp: numeric_def list_all_iff is_digit_def)

lemma map_int_numeric:
  "list_all numeric ws \<Longrightarrow> list_all (\<lambda>w. length w \<le> max_str_digits) ws \<Longrightarrow>
     map_int ws = Inr (map (\<lambda>w. int (dec_value w)) ws)"
  by (induction ws) (simp_all add: ebind_def py_int_numeric)

lemma split_numeric:
  assumes "list_all numeric ws" "ws \<noteq> []"
  shows "split_on (CHR ''.'') (join_on (CHR ''.'') ws) = ws"
proof -
  from assms(1) have "\<forall>w \<in> set ws. CHR ''.'' \<notin> set w"
    by (simp add: list_all_iff numeric_no_dot)
  with assms(2) show ?thesis by (simp add: split_on_join_on)
qed

lemma parts_of_numeric:
  assumes "list_all numeric ws" "list_all (\<lambda>w. length w \<le> max_str_digits) ws" "ws \<noteq> []"
  shows "map_int (split_on (CHR ''.'') (join_on (CHR ''.'') ws))
           = Inr (map (\<lambda>w. int (dec_value w)) ws)"
  using assms by (simp add: split_numeric map_int_numeric)

subsection \<open>The number of digits\<close>

lemma max_str_digits_pos: "0 < max_str_digits"
  by (simp add: max_str_digits_def)

lemma length_str_nat_le: "n < 10 ^ k \<Longrightarrow> 0 < k \<Longrightarrow> length (str_nat n) \<le> k"
proof (induction n arbitrary: k rule: str_nat.induct)
  case (1 n)
  show ?case
  proof (cases "n < 10")
    case True
    with 1(3) show ?thesis by (subst str_nat.simps) simp
  next
    case False
    then obtain j where k: "k = Suc j" using 1(3) by (cases k) auto
    have j: "0 < j"
    proof (rule ccontr)
      assume "\<not> 0 < j"
      with k 1(2) False show False by simp
    qed
    from 1(2) k have "n div 10 < 10 ^ j" by (simp add: less_mult_imp_div_less mult.commute)
    from 1(1)[OF False this j] False k show ?thesis by (subst str_nat.simps) simp
  qed
qed

lemma length_str_nat_limit: "n < 10 ^ max_str_digits \<Longrightarrow> length (str_nat n) \<le> max_str_digits"
  by (rule length_str_nat_le[OF _ max_str_digits_pos])

lemma dec_value_less: "dec_value s < 10 ^ length s" if "list_all is_digit s"
  using that
proof (induction s rule: rev_induct)
  case Nil
  show ?case by (simp add: dec_value_def)
next
  case (snoc c s)
  then have "dec_value s < 10 ^ length s" "digit_val c < 10"
    by (auto simp: is_digit_def digit_val_def)
  then have "10 * dec_value s + digit_val c < 10 * 10 ^ length s" by arith
  then show ?case by (simp add: dec_value_snoc)
qed

lemma py_str_nat: "n < 10 ^ max_str_digits \<Longrightarrow> py_str (int n) = Inr (str_nat n)"
  using length_str_nat_limit[of n] by (simp add: py_str_def)

lemma py_str_Suc: "n + 1 < 10 ^ max_str_digits \<Longrightarrow> py_str (int n + 1) = Inr (str_nat (n + 1))"
  using py_str_nat[of "n + 1"] by (simp add: add.commute)

lemma str_nat_0: "str_nat 0 = ''0''"
  by code_simp

lemma py_str_0: "py_str 0 = Inr ''0''"
  using py_str_nat[of 0] by (simp add: str_nat_0)


subsection \<open>The reset rule\<close>


lemma format_version_nat:
  assumes "a < 10 ^ max_str_digits" "b < 10 ^ max_str_digits" "c < 10 ^ max_str_digits"
  shows "format_version [int a, int b, int c] = Inr (version_string a b c)"
  using assms
  by (simp add: format_version_def ebind_def get_item_def py_str_nat version_string_def)


lemma zero_below_limit: "(0::nat) < 10 ^ max_str_digits"
  by simp





subsection \<open>Invalid bump types\<close>

lemma py_int_error: "py_int s = Inl e \<Longrightarrow> \<exists>v. e = ValueError v"
  by (auto simp: py_int_def Let_def split: option.splits prod.splits if_splits)

lemma map_int_error: "map_int ws = Inl e \<Longrightarrow> \<exists>v. e = ValueError v"
proof (induction ws)
  case Nil then show ?case by simp
next
  case (Cons w ws)
  then show ?case
    by (auto simp: ebind_def split: sum.splits dest: py_int_error)
qed

text \<open>
  Claim C8. For a bump type other than \<^verbatim>\<open>major\<close>, \<^verbatim>\<open>minor\<close> and \<^verbatim>\<open>patch\<close>,
  \<^verbatim>\<open>bump_version\<close> raises a \<^verbatim>\<open>ValueError\<close> and returns nothing; when the version
  string parses, it is the error \<^verbatim>\<open>Invalid bump type\<close>. (When it does not parse,
  \<^verbatim>\<open>int\<close> has raised its own \<^verbatim>\<open>ValueError\<close> before the bump type is looked at.)
  The function reads its two arguments only and has no access to the files or to
  the output: its result is a function of the two arguments.
\<close>

theorem bump_version_invalid_kind:
  "k \<notin> {''major'', ''minor'', ''patch''} \<Longrightarrow>
     (\<exists>e. bump_version v k = Inl (ValueError e)) \<and>
     (\<forall>parts. map_int (split_on (CHR ''.'') v) = Inr parts \<longrightarrow>
        bump_version v k = Inl (ValueError (InvalidBumpType k)))"
proof -
  assume k: "k \<notin> {''major'', ''minor'', ''patch''}"
  show ?thesis
  proof (cases "map_int (split_on (CHR ''.'') v)")
    case (Inl e)
    then obtain s where "e = ValueError s" using map_int_error by blast
    with Inl show ?thesis by (simp add: bump_version_def ebind_def)
  next
    case (Inr parts)
    with k show ?thesis by (simp add: bump_version_def ebind_def)
  qed
qed

theorem bump_version_invalid_kind_witness:
  "''bogus'' \<notin> {''major'', ''minor'', ''patch''} \<and>
   map_int (split_on (CHR ''.'') ''1.2.3'') = Inr [1, 2, 3] \<and>
   bump_version ''1.2.3'' ''bogus'' = Inl (ValueError (InvalidBumpType ''bogus'')) \<and>
   (\<exists>e. bump_version ''1.2.x'' ''bogus'' = Inl (ValueError e))"
proof -
  have k: "''bogus'' \<notin> {''major'', ''minor'', ''patch''}" by simp
  have p: "map_int (split_on (CHR ''.'') ''1.2.3'') = Inr [1, 2, 3]" by code_simp
  show ?thesis
    using bump_version_invalid_kind[OF k, of "''1.2.3''"]
          bump_version_invalid_kind[OF k, of "''1.2.x''"] p
    by simp
qed

subsection \<open>Fewer or more than three components\<close>

lemma bump_version_parts:
  assumes "map_int (split_on (CHR ''.'') s) = Inr (a # b # c # rest)"
  shows "bump_version s k =
     (if k = ''major'' then format_version [a + 1, 0, 0]
      else if k = ''minor'' then format_version [a, b + 1, 0]
      else if k = ''patch'' then format_version [a, b, c + 1]
      else Inl (ValueError (InvalidBumpType k)))"
  unfolding bump_version_def assms
  by (simp add: ebind_def add_item_def get_item_def set_item_def format_version_def)

lemma dec_value_below_limit:
  assumes "numeric w" "length w \<le> max_str_digits"
  shows "dec_value w < 10 ^ max_str_digits"
proof -
  from assms(1) have "dec_value w < 10 ^ length w" by (simp add: dec_value_less numeric_def)
  also have "(10::nat) ^ length w \<le> 10 ^ max_str_digits"
    using assms(2) by (simp add: power_increasing)
  finally show ?thesis .
qed

lemma dec_value_Suc_below_limit:
  assumes "numeric w" "length w < max_str_digits"
  shows "dec_value w + 1 < 10 ^ max_str_digits"
proof -
  from assms(1) have "dec_value w < 10 ^ length w" by (simp add: dec_value_less numeric_def)
  then have "dec_value w + 1 < 10 ^ Suc (length w)" by simp
  also have "(10::nat) ^ Suc (length w) \<le> 10 ^ max_str_digits"
    using assms(2) by (intro power_increasing) simp_all
  finally show ?thesis .
qed

text \<open>
  Claim C10, amended. \<^verbatim>\<open>bump_version\<close> does not check the number of components. For
  numeric components within the interpreter's limit of 4300 digits: with one or two
  components and the bump type \<^verbatim>\<open>minor\<close> or \<^verbatim>\<open>patch\<close> it raises \<^verbatim>\<open>IndexError\<close>; with
  more than three components its outcome is the one for the first three components
  alone, the others being dropped, and it succeeds when the first three components
  have fewer than 4300 digits.
\<close>

theorem bump_version_component_count:
  "list_all numeric ws \<Longrightarrow> list_all (\<lambda>w. length w \<le> max_str_digits) ws \<Longrightarrow>
     (ws \<noteq> [] \<and> length ws < 3 \<and> k \<in> {''minor'', ''patch''} \<longrightarrow>
        bump_version (join_on (CHR ''.'') ws) k = Inl IndexError) \<and>
     (3 < length ws \<and> k \<in> {''major'', ''minor'', ''patch''} \<longrightarrow>
        bump_version (join_on (CHR ''.'') ws) k
          = bump_version (join_on (CHR ''.'') (take 3 ws)) k) \<and>
     (3 < length ws \<and> k \<in> {''major'', ''minor'', ''patch''} \<and>
      list_all (\<lambda>w. length w < max_str_digits) (take 3 ws) \<longrightarrow>
        (\<exists>r. bump_version (join_on (CHR ''.'') ws) k = Inr r \<and>
             bump_version (join_on (CHR ''.'') (take 3 ws)) k = Inr r))"
proof (intro conjI impI)
  assume n: "list_all numeric ws" and l: "list_all (\<lambda>w. length w \<le> max_str_digits) ws"
  assume "ws \<noteq> [] \<and> length ws < 3 \<and> k \<in> {''minor'', ''patch''}"
  then have ne: "ws \<noteq> []" and len: "length ws < 3" and k: "k \<in> {''minor'', ''patch''}"
    by simp_all
  from ne len consider a where "ws = [a]" | a b where "ws = [a, b]"
    by (cases ws rule: list.exhaust[case_names Nil Cons])
       (auto simp: less_Suc_eq numeral_3_eq_3 length_Suc_conv)
  then show "bump_version (join_on (CHR ''.'') ws) k = Inl IndexError"
  proof cases
    case 1
    with k show ?thesis
      unfolding bump_version_def parts_of_numeric[OF n l ne]
      by (auto simp: ebind_def add_item_def get_item_def set_item_def format_version_def)
  next
    case 2
    with k show ?thesis
      unfolding bump_version_def parts_of_numeric[OF n l ne]
      by (auto simp: ebind_def add_item_def get_item_def set_item_def format_version_def)
  qed
next
  assume n: "list_all numeric ws" and l: "list_all (\<lambda>w. length w \<le> max_str_digits) ws"
  assume "3 < length ws \<and> k \<in> {''major'', ''minor'', ''patch''}"
  then have len: "3 < length ws" by simp
  from len obtain a b c d rest where ws: "ws = a # b # c # d # rest"
    by (auto simp: numeral_3_eq_3 Suc_less_eq2 length_Suc_conv less_Suc_eq_le Suc_le_length_iff
                   neq_Nil_conv)
  have ne: "ws \<noteq> []" using ws by simp
  have n3: "list_all numeric (take 3 ws)" "list_all (\<lambda>w. length w \<le> max_str_digits) (take 3 ws)"
    "take 3 ws \<noteq> []" using n l ws by simp_all
  have p: "map_int (split_on (CHR ''.'') (join_on (CHR ''.'') ws))
             = Inr (int (dec_value a) # int (dec_value b) # int (dec_value c) #
                    map (\<lambda>w. int (dec_value w)) (d # rest))"
    unfolding parts_of_numeric[OF n l ne] using ws by simp
  have p3: "map_int (split_on (CHR ''.'') (join_on (CHR ''.'') (take 3 ws)))
             = Inr (int (dec_value a) # int (dec_value b) # int (dec_value c) # [])"
    unfolding parts_of_numeric[OF n3] using ws by simp
  show "bump_version (join_on (CHR ''.'') ws) k = bump_version (join_on (CHR ''.'') (take 3 ws)) k"
    unfolding bump_version_parts[OF p] bump_version_parts[OF p3] ..
next
  assume n: "list_all numeric ws" and l: "list_all (\<lambda>w. length w \<le> max_str_digits) ws"
  assume h: "3 < length ws \<and> k \<in> {''major'', ''minor'', ''patch''} \<and>
      list_all (\<lambda>w. length w < max_str_digits) (take 3 ws)"
  then have len: "3 < length ws" and k: "k \<in> {''major'', ''minor'', ''patch''}" by simp_all
  from len obtain a b c d rest where ws: "ws = a # b # c # d # rest"
    by (auto simp: numeral_3_eq_3 Suc_less_eq2 length_Suc_conv less_Suc_eq_le Suc_le_length_iff
                   neq_Nil_conv)
  have ne: "ws \<noteq> []" using ws by simp
  have n3: "list_all numeric (take 3 ws)" "list_all (\<lambda>w. length w \<le> max_str_digits) (take 3 ws)"
    "take 3 ws \<noteq> []" using n l ws by simp_all
  have p: "map_int (split_on (CHR ''.'') (join_on (CHR ''.'') ws))
             = Inr (int (dec_value a) # int (dec_value b) # int (dec_value c) #
                    map (\<lambda>w. int (dec_value w)) (d # rest))"
    unfolding parts_of_numeric[OF n l ne] using ws by simp
  have p3: "map_int (split_on (CHR ''.'') (join_on (CHR ''.'') (take 3 ws)))
             = Inr (int (dec_value a) # int (dec_value b) # int (dec_value c) # [])"
    unfolding parts_of_numeric[OF n3] using ws by simp
  have num: "numeric a" "numeric b" "numeric c" using n ws by simp_all
  have lt: "length a < max_str_digits" "length b < max_str_digits" "length c < max_str_digits"
    using h ws by simp_all
  note v = dec_value_below_limit[OF num(1) less_imp_le[OF lt(1)]]
           dec_value_below_limit[OF num(2) less_imp_le[OF lt(2)]]
           dec_value_below_limit[OF num(3) less_imp_le[OF lt(3)]]
  note s = dec_value_Suc_below_limit[OF num(1) lt(1)] dec_value_Suc_below_limit[OF num(2) lt(2)]
           dec_value_Suc_below_limit[OF num(3) lt(3)]
  have f: "format_version [int (dec_value a) + 1, 0, 0]
             = Inr (version_string (dec_value a + 1) 0 0)"
    "format_version [int (dec_value a), int (dec_value b) + 1, 0]
             = Inr (version_string (dec_value a) (dec_value b + 1) 0)"
    "format_version [int (dec_value a), int (dec_value b), int (dec_value c) + 1]
             = Inr (version_string (dec_value a) (dec_value b) (dec_value c + 1))"
    using format_version_nat[OF s(1) zero_below_limit zero_below_limit]
          format_version_nat[OF v(1) s(2) zero_below_limit]
          format_version_nat[OF v(1) v(2) s(3)]
    by (simp_all add: add.commute)
  show "\<exists>r. bump_version (join_on (CHR ''.'') ws) k = Inr r \<and>
            bump_version (join_on (CHR ''.'') (take 3 ws)) k = Inr r"
    unfolding bump_version_parts[OF p] bump_version_parts[OF p3] using k f by auto
qed

theorem bump_version_component_count_witness:
  "list_all numeric [''1'', ''2''] \<and> list_all numeric [''1'', ''2'', ''3'', ''4''] \<and>
   list_all (\<lambda>w. length w \<le> max_str_digits) [''1'', ''2''] \<and>
   list_all (\<lambda>w. length w \<le> max_str_digits) [''1'', ''2'', ''3'', ''4''] \<and>
   list_all (\<lambda>w. length w < max_str_digits) (take 3 [''1'', ''2'', ''3'', ''4'']) \<and>
   bump_version ''1.2'' ''minor'' = Inl IndexError \<and>
   bump_version ''1.2'' ''patch'' = Inl IndexError \<and>
   bump_version ''1.2.3.4'' ''patch'' = Inr ''1.2.4'' \<and>
   bump_version ''1.2.3'' ''patch'' = Inr ''1.2.4''"
proof -
  have n: "list_all numeric [''1'', ''2'']" "list_all numeric [''1'', ''2'', ''3'', ''4'']"
    by (simp_all add: numeric_def is_digit_def)
  have l: "list_all (\<lambda>w. length w \<le> max_str_digits) [''1'', ''2'']"
    "list_all (\<lambda>w. length w \<le> max_str_digits) [''1'', ''2'', ''3'', ''4'']"
    "list_all (\<lambda>w. length w < max_str_digits) (take 3 [''1'', ''2'', ''3'', ''4''])"
    by (simp_all add: max_str_digits_def)
  have e: "bump_version ''1.2.3'' ''patch'' = Inr ''1.2.4''" by code_simp
  have a: "bump_version ''1.2'' ''minor'' = Inl IndexError"
    using bump_version_component_count[OF n(1) l(1), of "''minor''"] by simp
  have b: "bump_version ''1.2'' ''patch'' = Inl IndexError"
    using bump_version_component_count[OF n(1) l(1), of "''patch''"] by simp
  have c: "bump_version ''1.2.3.4'' ''patch'' = Inr ''1.2.4''"
    using bump_version_component_count[OF n(2) l(2), of "''patch''"] e by simp
  show ?thesis by (intro conjI n l a b c e)
qed

text \<open>
  Claim C10 as stated fails beyond the limit: the second of two components has 4301
  digits, and \<^verbatim>\<open>int\<close> raises a \<^verbatim>\<open>ValueError\<close> before any index is out of range.
\<close>

lemma bump_version_long_second:
  assumes "max_str_digits < n"
  shows "bump_version (''1.'' @ replicate n (CHR ''1'')) k = Inl (ValueError DigitLimit)"
proof -
  from assms have n: "0 < n" by simp
  then have num: "numeric (replicate n (CHR ''1''))"
    by (auto simp: numeric_def list_all_iff is_digit_def)
  have one: "numeric ''1''" "length ''1'' \<le> max_str_digits"
    by (simp_all add: numeric_def is_digit_def max_str_digits_def)
  have "CHR ''.'' \<notin> set (replicate n (CHR ''1''))" by simp
  then have "split_on (CHR ''.'') (replicate n (CHR ''1'')) = [replicate n (CHR ''1'')]"
    by (rule split_on_no_sep)
  then have "split_on (CHR ''.'') (''1.'' @ replicate n (CHR ''1''))
               = [''1'', replicate n (CHR ''1'')]"
    using split_on_append_sep[of "CHR ''.''" "''1''" "replicate n (CHR ''1'')"] by simp
  moreover have "py_int (replicate n (CHR ''1'')) = Inl (ValueError DigitLimit)"
    using num assms by (simp add: py_int_too_long)
  moreover have "py_int ''1'' = Inr (int (dec_value ''1''))"
    using one by (rule py_int_numeric)
  ultimately show ?thesis by (simp add: bump_version_def ebind_def)
qed

theorem bump_version_component_count_beyond_digit_limit:
  "bump_version (''1.'' @ replicate 4301 (CHR ''1'')) ''minor'' = Inl (ValueError DigitLimit)"
  by (rule bump_version_long_second) (simp add: max_str_digits_def)

section \<open>Properties of \<^verbatim>\<open>determine_bump_type\<close>\<close>

lemma starts_with_iff: "starts_with p s \<longleftrightarrow> (\<exists>post. s = p @ post)"
  by (induction p s rule: starts_with.induct) auto

lemma py_in_iff_contains: "py_in sub s \<longleftrightarrow> contains sub s"
proof (induction s)
  case Nil
  show ?case by (auto simp: contains_def)
next
  case (Cons c cs)
  have "contains sub (c # cs) \<longleftrightarrow> (\<exists>post. c # cs = sub @ post) \<or> contains sub cs"
  proof
    assume "contains sub (c # cs)"
    then obtain pre post where e: "c # cs = pre @ sub @ post" by (auto simp: contains_def)
    show "(\<exists>post. c # cs = sub @ post) \<or> contains sub cs"
    proof (cases pre)
      case Nil with e show ?thesis by auto
    next
      case (Cons a pre')
      with e have "cs = pre' @ sub @ post" by simp
      then show ?thesis by (auto simp: contains_def)
    qed
  next
    assume "(\<exists>post. c # cs = sub @ post) \<or> contains sub cs"
    then show "contains sub (c # cs)"
    proof
      assume "\<exists>post. c # cs = sub @ post"
      then obtain post where "c # cs = [] @ sub @ post" by auto
      then show ?thesis unfolding contains_def by blast
    next
      assume "contains sub cs"
      then obtain pre post where "cs = pre @ sub @ post" by (auto simp: contains_def)
      then have "c # cs = (c # pre) @ sub @ post" by simp
      then show ?thesis unfolding contains_def by blast
    qed
  qed
  with Cons show ?case by (simp add: starts_with_iff)
qed

lemma determine_bump_type_eq:
  "determine_bump_type commits =
     (if \<exists>c \<in> set commits. contains ''!'' c then Some ''major''
      else if \<exists>c \<in> set commits. contains ''feat:'' c \<or> contains ''feat('' c then Some ''minor''
      else if \<exists>c \<in> set commits. contains ''fix:'' c \<or> contains ''fix('' c \<or>
                                   contains ''perf:'' c \<or> contains ''perf('' c
           then Some ''patch''
      else None)"
  by (simp add: determine_bump_type_def Let_def list_ex_iff py_in_iff_contains)

text \<open>
  Claim C2. The classifier returns \<^verbatim>\<open>major\<close> if some message contains \<^verbatim>\<open>!\<close>; otherwise
  \<^verbatim>\<open>minor\<close> if some message contains \<^verbatim>\<open>feat:\<close> or \<^verbatim>\<open>feat(\<close>; otherwise \<^verbatim>\<open>patch\<close> if some
  message contains \<^verbatim>\<open>fix:\<close>, \<^verbatim>\<open>fix(\<close>, \<^verbatim>\<open>perf:\<close> or \<^verbatim>\<open>perf(\<close>; otherwise \<^verbatim>\<open>None\<close>.
  The result depends on the set of messages only, so not on their order. A list
  with a \<^verbatim>\<open>feat:\<close> message and a message with \<^verbatim>\<open>!\<close> gives \<^verbatim>\<open>major\<close>; a non-empty list
  whose messages all contain \<^verbatim>\<open>fix(\<close> and none of \<^verbatim>\<open>!\<close>, \<^verbatim>\<open>feat:\<close>, \<^verbatim>\<open>feat(\<close> gives
  \<^verbatim>\<open>patch\<close>; the empty list gives \<^verbatim>\<open>None\<close>.
\<close>

theorem determine_bump_type_precedence:
  "determine_bump_type commits =
     (if \<exists>c \<in> set commits. contains ''!'' c then Some ''major''
      else if \<exists>c \<in> set commits. contains ''feat:'' c \<or> contains ''feat('' c then Some ''minor''
      else if \<exists>c \<in> set commits. contains ''fix:'' c \<or> contains ''fix('' c \<or>
                                   contains ''perf:'' c \<or> contains ''perf('' c
           then Some ''patch''
      else None) \<and>
   (set commits = set commits' \<longrightarrow>
      determine_bump_type commits = determine_bump_type commits') \<and>
   (a \<in> set commits \<and> b \<in> set commits \<and> contains ''feat:'' a \<and> contains ''!'' b \<longrightarrow>
      determine_bump_type commits = Some ''major'') \<and>
   (commits \<noteq> [] \<and>
    (\<forall>c \<in> set commits. contains ''fix('' c \<and> \<not> contains ''!'' c \<and>
                         \<not> contains ''feat:'' c \<and> \<not> contains ''feat('' c) \<longrightarrow>
      determine_bump_type commits = Some ''patch'') \<and>
   determine_bump_type [] = None"
proof (intro conjI impI)
  show "determine_bump_type commits =
     (if \<exists>c \<in> set commits. contains ''!'' c then Some ''major''
      else if \<exists>c \<in> set commits. contains ''feat:'' c \<or> contains ''feat('' c then Some ''minor''
      else if \<exists>c \<in> set commits. contains ''fix:'' c \<or> contains ''fix('' c \<or>
                                   contains ''perf:'' c \<or> contains ''perf('' c
           then Some ''patch''
      else None)"
    by (rule determine_bump_type_eq)
next
  assume "set commits = set commits'"
  then show "determine_bump_type commits = determine_bump_type commits'"
    by (simp add: determine_bump_type_eq)
next
  assume "a \<in> set commits \<and> b \<in> set commits \<and> contains ''feat:'' a \<and> contains ''!'' b"
  then have "\<exists>c \<in> set commits. contains ''!'' c" by blast
  then show "determine_bump_type commits = Some ''major''"
    by (simp add: determine_bump_type_eq)
next
  assume h: "commits \<noteq> [] \<and>
    (\<forall>c \<in> set commits. contains ''fix('' c \<and> \<not> contains ''!'' c \<and>
                         \<not> contains ''feat:'' c \<and> \<not> contains ''feat('' c)"
  then obtain c where "c \<in> set commits" by (cases commits) auto
  with h have "\<exists>c \<in> set commits. contains ''fix:'' c \<or> contains ''fix('' c \<or>
                                   contains ''perf:'' c \<or> contains ''perf('' c" by blast
  moreover from h have "\<not> (\<exists>c \<in> set commits. contains ''!'' c)"
    "\<not> (\<exists>c \<in> set commits. contains ''feat:'' c \<or> contains ''feat('' c)" by blast+
  ultimately show "determine_bump_type commits = Some ''patch''"
    by (simp only: determine_bump_type_eq if_False if_True)
next
  show "determine_bump_type [] = None" by (simp add: determine_bump_type_def)
qed

theorem determine_bump_type_precedence_witness:
  "set [''a1 feat: add'', ''b2 fix!: drop''] = set [''b2 fix!: drop'', ''a1 feat: add''] \<and>
   contains ''feat:'' ''a1 feat: add'' \<and> contains ''!'' ''b2 fix!: drop'' \<and>
   determine_bump_type [''a1 feat: add'', ''b2 fix!: drop''] = Some ''major'' \<and>
   determine_bump_type [''b2 fix!: drop'', ''a1 feat: add''] = Some ''major'' \<and>
   contains ''fix('' ''c3 fix(io): x'' \<and> contains ''fix('' ''d4 fix(ui): y'' \<and>
   determine_bump_type [''c3 fix(io): x'', ''d4 fix(ui): y''] = Some ''patch''"
proof -
  have s: "set [''a1 feat: add'', ''b2 fix!: drop''] = set [''b2 fix!: drop'', ''a1 feat: add'']"
    by auto
  have c: "contains ''feat:'' ''a1 feat: add''" "contains ''!'' ''b2 fix!: drop''"
    by (simp_all add: py_in_iff_contains[symmetric])
  have f: "\<forall>c \<in> set [''c3 fix(io): x'', ''d4 fix(ui): y''].
       contains ''fix('' c \<and> \<not> contains ''!'' c \<and>
       \<not> contains ''feat:'' c \<and> \<not> contains ''feat('' c"
    by (simp add: py_in_iff_contains[symmetric])
  note T1 = determine_bump_type_precedence
            [of "[''a1 feat: add'', ''b2 fix!: drop'']" "[''b2 fix!: drop'', ''a1 feat: add'']"
                "''a1 feat: add''" "''b2 fix!: drop''"]
  note T2 = determine_bump_type_precedence
            [of "[''c3 fix(io): x'', ''d4 fix(ui): y'']" "[]" "[]" "[]"]
  have r1: "determine_bump_type [''a1 feat: add'', ''b2 fix!: drop''] = Some ''major''"
    using T1 c by simp
  have "determine_bump_type [''a1 feat: add'', ''b2 fix!: drop'']
          = determine_bump_type [''b2 fix!: drop'', ''a1 feat: add'']"
    using T1 s by blast
  with r1 have r2: "determine_bump_type [''b2 fix!: drop'', ''a1 feat: add''] = Some ''major''"
    by simp
  have ne: "[''c3 fix(io): x'', ''d4 fix(ui): y''] \<noteq> []" by simp
  have r3: "determine_bump_type [''c3 fix(io): x'', ''d4 fix(ui): y''] = Some ''patch''"
    using T2 f ne by blast
  have g: "contains ''fix('' ''c3 fix(io): x''" "contains ''fix('' ''d4 fix(ui): y''"
    using f by simp_all
  show ?thesis by (intro conjI s c g r1 r2 r3)
qed

section \<open>Properties of matching and substitution\<close>

subsection \<open>What a match is\<close>

lemma strip_prefix_Some: "strip_prefix a s = Some t \<longleftrightarrow> s = a @ t"
  by (induction a s rule: strip_prefix.induct) auto

lemma match_at_Some:
  "match_at (Quoted lit qs suf) s = Some (m, g, rest) \<longleftrightarrow>
     (\<exists>q q'. s = m @ rest \<and> m = lit @ q # g @ q' # suf \<and> q \<in> set qs \<and> q' \<in> set qs \<and>
             g \<noteq> [] \<and> (\<forall>c \<in> set g. c \<notin> set qs))"
proof
  assume "match_at (Quoted lit qs suf) s = Some (m, g, rest)"
  then obtain t q u q' r' where
    t: "strip_prefix lit s = Some t" and tq: "t = q # u" and q: "q \<in> set qs" and
    g: "g = takeWhile (\<lambda>c. c \<notin> set qs) u" and gne: "g \<noteq> []" and
    r: "dropWhile (\<lambda>c. c \<notin> set qs) u = q' # r'" and
    suf: "strip_prefix suf r' = Some rest" and m: "m = lit @ q # g @ q' # suf"
    by (auto simp: Let_def split: option.splits list.splits if_splits)
  have u: "u = g @ q' # r'" using g r takeWhile_dropWhile_id[of "\<lambda>c. c \<notin> set qs" u] by simp
  have q': "q' \<in> set qs" using r hd_dropWhile[of "\<lambda>c. c \<notin> set qs" u] by auto
  have gq: "\<forall>c \<in> set g. c \<notin> set qs" using g by (auto dest: set_takeWhileD)
  from t tq u suf m have "s = m @ rest" by (simp add: strip_prefix_Some)
  with m q q' gne gq show "\<exists>q q'. s = m @ rest \<and> m = lit @ q # g @ q' # suf \<and> q \<in> set qs \<and>
       q' \<in> set qs \<and> g \<noteq> [] \<and> (\<forall>c \<in> set g. c \<notin> set qs)" by blast
next
  assume "\<exists>q q'. s = m @ rest \<and> m = lit @ q # g @ q' # suf \<and> q \<in> set qs \<and> q' \<in> set qs \<and>
             g \<noteq> [] \<and> (\<forall>c \<in> set g. c \<notin> set qs)"
  then obtain q q' where s: "s = m @ rest" and m: "m = lit @ q # g @ q' # suf" and
    q: "q \<in> set qs" and q': "q' \<in> set qs" and gne: "g \<noteq> []" and
    gq: "\<forall>c \<in> set g. c \<notin> set qs" by blast
  have 1: "strip_prefix lit s = Some (q # g @ q' # suf @ rest)"
    using s m by (simp add: strip_prefix_Some)
  have 2: "takeWhile (\<lambda>c. c \<notin> set qs) (g @ q' # suf @ rest) = g"
    using gq q' by (simp add: takeWhile_append2)
  have 3: "dropWhile (\<lambda>c. c \<notin> set qs) (g @ q' # suf @ rest) = q' # suf @ rest"
    using gq q' by (simp add: dropWhile_append2)
  have 4: "strip_prefix suf (suf @ rest) = Some rest" by (simp add: strip_prefix_Some)
  show "match_at (Quoted lit qs suf) s = Some (m, g, rest)"
    using 1 2 3 4 q gne m by (simp add: Let_def)
qed

lemma match_at_Nil: "match_at p [] = None"
  by (cases p) (auto split: option.splits dest: strip_prefix_Some[THEN iffD1])

lemma match_at_decomp:
  "match_at p s = Some (m, g, rest) \<Longrightarrow> s = m @ rest \<and> m \<noteq> []"
  by (cases p) (auto simp: match_at_Some simp del: match_at.simps)

subsection \<open>Substitution goes from match to match\<close>

lemma sub_from_skip: "sub_from p t (length m) (m @ rest) = sub_from p t 0 rest"
  by (induction m) auto

lemma sub_from_match:
  assumes "match_at p s = Some (m, g, rest)"
  shows "sub_from p t 0 s = expand t m @ sub_from p t 0 rest"
proof -
  from match_at_decomp[OF assms] obtain c m' where s: "s = m @ rest" and m: "m = c # m'"
    by (cases m) auto
  have "sub_from p t 0 (c # m' @ rest) = expand t m @ sub_from p t (length m') (m' @ rest)"
    using assms s m by simp
  then show ?thesis using s m by (simp add: sub_from_skip)
qed

lemma sub_from_no_match:
  "match_at p (c # cs) = None \<Longrightarrow> sub_from p t 0 (c # cs) = c # sub_from p t 0 cs"
  by simp

subsection \<open>Templates without a backslash\<close>

lemma parse_template_literal:
  "CHR 0x5C \<notin> set r \<Longrightarrow> parse_template r = Some (map TChar r)"
proof (induction r)
  case Nil
  show ?case by simp
next
  case (Cons a r)
  then have "a \<noteq> CHR 0x5C" "parse_template r = Some (map TChar r)" by auto
  then show ?case by (simp add: tlit_def)
qed

lemma expand_literal: "expand (map TChar r) m = r"
  by (induction r) (simp_all add: expand_def)

lemma re_sub_literal:
  "CHR 0x5C \<notin> set r \<Longrightarrow> re_sub p r s = Inr (sub_from p (map TChar r) 0 s)"
  by (simp add: re_sub_def parse_template_literal)

subsection \<open>The leftmost match\<close>

lemma re_search_Some:
  "re_search p s = Some (pre, m, g, rest) \<Longrightarrow>
     s = pre @ m @ rest \<and> match_at p (m @ rest) = Some (m, g, rest) \<and>
     (\<forall>pre1 pre2. pre = pre1 @ pre2 \<and> pre2 \<noteq> [] \<longrightarrow> match_at p (pre2 @ m @ rest) = None)"
proof (induction s arbitrary: pre)
  case Nil
  then show ?case by simp
next
  case (Cons c cs)
  show ?case
  proof (cases "match_at p (c # cs)")
    case (Some x)
    with Cons.prems have x: "x = (m, g, rest)" and pre: "pre = []"
      by (auto split: prod.splits)
    from Some x match_at_decomp[of p "c # cs" m g rest] have "c # cs = m @ rest" by simp
    with Some x pre show ?thesis by simp
  next
    case None
    with Cons.prems obtain pre' where r: "re_search p cs = Some (pre', m, g, rest)"
      and pre: "pre = c # pre'" by (auto split: prod.splits)
    note ih = Cons.IH[OF r]
    have "match_at p (pre2 @ m @ rest) = None" if "pre = pre1 @ pre2" "pre2 \<noteq> []" for pre1 pre2
    proof (cases pre1)
      case Nil
      with that pre have "pre2 @ m @ rest = c # pre' @ m @ rest" by simp
      also have "\<dots> = c # cs" using ih by simp
      finally show ?thesis using None by simp
    next
      case (Cons a pre1')
      with that pre have "pre' = pre1' @ pre2" by simp
      with ih that show ?thesis by blast
    qed
    with ih pre show ?thesis by simp
  qed
qed

lemma re_search_first:
  assumes "match_at p (m @ rest) = Some (m, g, rest)"
    and "\<And>pre1 pre2. pre = pre1 @ pre2 \<Longrightarrow> pre2 \<noteq> [] \<Longrightarrow> match_at p (pre2 @ m @ rest) = None"
  shows "re_search p (pre @ m @ rest) = Some (pre, m, g, rest)"
  using assms(2)
proof (induction pre)
  case Nil
  from match_at_decomp[OF assms(1)] obtain c cs where "m @ rest = c # cs"
    by (cases "m @ rest") auto
  with assms(1) show ?case by simp
next
  case (Cons a pre)
  have "match_at p ((a # pre) @ m @ rest) = None" using Cons.prems[of "[]" "a # pre"] by simp
  moreover have "re_search p (pre @ m @ rest) = Some (pre, m, g, rest)"
  proof (rule Cons.IH)
    fix pre1 pre2 assume "pre = pre1 @ pre2" "pre2 \<noteq> []"
    then show "match_at p (pre2 @ m @ rest) = None" using Cons.prems[of "a # pre1" pre2] by simp
  qed
  ultimately show ?case by simp
qed

lemma sub_from_search:
  "re_search p s = Some (pre, m, g, rest) \<Longrightarrow>
     sub_from p t 0 s = pre @ expand t m @ sub_from p t 0 rest"
proof (induction s arbitrary: pre)
  case Nil
  then show ?case by simp
next
  case (Cons c cs)
  show ?case
  proof (cases "match_at p (c # cs)")
    case (Some x)
    with Cons.prems have x: "match_at p (c # cs) = Some (m, g, rest)" and pre: "pre = []"
      by (auto split: prod.splits)
    show ?thesis using sub_from_match[OF x] pre by simp
  next
    case None
    with Cons.prems obtain pre' where r: "re_search p cs = Some (pre', m, g, rest)"
      and pre: "pre = c # pre'" by (auto split: prod.splits)
    show ?thesis using Cons.IH[OF r] None pre by simp
  qed
qed

lemma sub_from_no_search: "re_search p s = None \<Longrightarrow> sub_from p t 0 s = s"
  by (induction s) (auto split: option.splits)

text \<open>With one match in the text, only that match is replaced.\<close>

lemma sub_from_single_match:
  "re_search p s = Some (pre, m, g, rest) \<Longrightarrow> re_search p rest = None \<Longrightarrow>
     sub_from p t 0 s = pre @ expand t m @ rest"
  by (simp add: sub_from_search sub_from_no_search)

lemma strip_prefix_append:
  "length a \<le> length z \<Longrightarrow>
     strip_prefix a (z @ x) = map_option (\<lambda>t. t @ x) (strip_prefix a z)"
  by (induction a z rule: strip_prefix.induct) auto

text \<open>
  A match that starts before a field and reaches into it ends at the opening quote
  of the field at the latest, so it does not depend on what follows that quote.
\<close>

lemma match_at_before_field:
  assumes "pre2 \<noteq> []" "q \<in> set qs"
  shows "(match_at (Quoted pfx qs []) (pre2 @ pfx @ q # A) = None) =
         (match_at (Quoted pfx qs []) (pre2 @ pfx @ q # B) = None)"
proof -
  define Z where "Z = pre2 @ pfx @ [q]"
  have len: "length pfx \<le> length Z" by (simp add: Z_def)
  have zA: "pre2 @ pfx @ q # A = Z @ A" and zB: "pre2 @ pfx @ q # B = Z @ B"
    by (simp_all add: Z_def)
  show ?thesis
  proof (cases "strip_prefix pfx Z")
    case None
    then show ?thesis unfolding zA zB by (simp add: strip_prefix_append[OF len])
  next
    case (Some t0)
    then have z: "Z = pfx @ t0" by (simp add: strip_prefix_Some)
    from arg_cong[OF z, of length] have "length t0 = length pre2 + 1" by (simp add: Z_def)
    with assms(1) obtain q1 u1 where t0: "t0 = q1 # u1" and u1: "u1 \<noteq> []"
      by (cases t0; cases "tl t0") auto
    have "last Z = q" by (simp add: Z_def)
    with z t0 u1 have "last u1 = q" by simp
    with u1 have qu: "q \<in> set u1" using last_in_set by blast
    let ?P = "\<lambda>c. c \<notin> set qs"
    have tw: "takeWhile ?P (u1 @ X) = takeWhile ?P u1" for X
      using qu assms(2) by (simp add: takeWhile_append1)
    have dw: "dropWhile ?P (u1 @ X) = dropWhile ?P u1 @ X" for X
      using qu assms(2) by (simp add: dropWhile_append1)
    have ne: "dropWhile ?P u1 \<noteq> []" using qu assms(2) by (auto simp: dropWhile_eq_Nil_conv)
    then obtain q' r' where d: "dropWhile ?P u1 = q' # r'" by (cases "dropWhile ?P u1") auto
    have "(match_at (Quoted pfx qs []) (Z @ X) = None) =
          (q1 \<notin> set qs \<or> takeWhile ?P u1 = [])" for X
      using Some t0 d by (simp add: strip_prefix_append[OF len] tw dw Let_def)
    then show ?thesis unfolding zA zB by simp
  qed
qed

lemma re_search_after_rewrite:
  assumes s: "re_search (Quoted pfx [q] []) s = Some (pre, m, g, rest)"
    and v: "v \<noteq> []" "q \<notin> set v"
  shows "re_search (Quoted pfx [q] []) (pre @ (pfx @ q # v @ [q]) @ X)
           = Some (pre, pfx @ q # v @ [q], v, X)"
proof (rule re_search_first)
  show "match_at (Quoted pfx [q] []) ((pfx @ q # v @ [q]) @ X) = Some (pfx @ q # v @ [q], v, X)"
    using v by (subst match_at_Some) auto
next
  fix pre1 pre2 assume p: "pre = pre1 @ pre2" "pre2 \<noteq> []"
  from re_search_Some[OF s] p have n: "match_at (Quoted pfx [q] []) (pre2 @ m @ rest) = None"
    and ma: "match_at (Quoted pfx [q] []) (m @ rest) = Some (m, g, rest)" by blast+
  from ma have m: "m = pfx @ q # g @ [q]" by (subst (asm) match_at_Some) auto
  have "match_at (Quoted pfx [q] []) (pre2 @ pfx @ q # (g @ q # rest)) = None"
    using n m by simp
  then have "match_at (Quoted pfx [q] []) (pre2 @ pfx @ q # (v @ q # X)) = None"
    using match_at_before_field[OF p(2), of q "[q]" pfx "g @ q # rest" "v @ q # X"] by simp
  then show "match_at (Quoted pfx [q] []) (pre2 @ (pfx @ q # v @ [q]) @ X) = None" by simp
qed

section \<open>Properties of reading and writing text\<close>

lemma read_text_keep: "c \<noteq> CHR 0x0D \<Longrightarrow> read_text (c # s) = c # read_text s"
  by (cases s) simp_all

lemma read_text_prefix: "CHR 0x0D \<notin> set x \<Longrightarrow> read_text (x @ y) = x @ read_text y"
proof (induction x)
  case Nil
  show ?case by simp
next
  case (Cons a x)
  then have "a \<noteq> CHR 0x0D" "read_text (x @ y) = x @ read_text y" by auto
  then show ?case by (simp add: read_text_keep)
qed

lemma read_text_append:
  "y = [] \<or> hd y \<noteq> CHR 0x0A \<Longrightarrow> read_text (x @ y) = read_text x @ read_text y"
proof (induction x rule: read_text.induct)
  case 1
  show ?case by simp
next
  case (2 c)
  then show ?case by (cases y) (auto simp: read_text_keep)
next
  case (3 c d ds)
  then show ?case by auto
qed

lemma read_text_no_CR: "CHR 0x0D \<notin> set (read_text s)"
  by (induction s rule: read_text.induct) auto

lemma read_text_Nil: "read_text s = [] \<longleftrightarrow> s = []"
  by (induction s rule: read_text.induct) auto

lemma read_text_set: "set (read_text s) \<subseteq> insert (CHR 0x0A) (set s)"
  by (induction s rule: read_text.induct) auto

lemma read_text_keeps: "c \<in> set s \<Longrightarrow> c \<noteq> CHR 0x0D \<Longrightarrow> c \<in> set (read_text s)"
  by (induction s rule: read_text.induct) (auto split: if_splits)

lemma read_text_id: "CHR 0x0A \<notin> set (read_text s) \<Longrightarrow> read_text s = s"
  by (induction s rule: read_text.induct) (auto split: if_splits)

text \<open>A text that is read in two parts was stored in two parts.\<close>

lemma read_text_split:
  "read_text s = a @ b \<Longrightarrow> \<exists>a0 b0. s = a0 @ b0 \<and> read_text a0 = a \<and> read_text b0 = b"
proof (induction s arbitrary: a rule: read_text.induct)
  case 1
  then show ?case by simp
next
  case (2 c)
  show ?case
  proof (cases a)
    case Nil
    with 2 have "[c] = [] @ [c] \<and> read_text [] = a \<and> read_text [c] = b" by simp
    then show ?thesis by blast
  next
    case (Cons x a')
    with 2 have "[c] = [c] @ [] \<and> read_text [c] = a \<and> read_text [] = b"
      by (auto split: if_splits)
    then show ?thesis by blast
  qed
next
  case (3 c d ds)
  show ?case
  proof (cases a)
    case Nil
    with 3(4) have "c # d # ds = [] @ (c # d # ds) \<and> read_text [] = a \<and>
                    read_text (c # d # ds) = b" by simp
    then show ?thesis by blast
  next
    case (Cons x a')
    consider (crlf) "c = CHR 0x0D" "d = CHR 0x0A" | (cr) "c = CHR 0x0D" "d \<noteq> CHR 0x0A"
      | (other) "c \<noteq> CHR 0x0D" by blast
    then show ?thesis
    proof cases
      case crlf
      with 3(4) Cons have x: "x = CHR 0x0A" and r: "read_text ds = a' @ b" by simp_all
      from 3(1)[OF _ r] crlf obtain a0 b0 where
        s: "ds = a0 @ b0" "read_text a0 = a'" "read_text b0 = b" by blast
      have "c # d # ds = (c # d # a0) @ b0 \<and> read_text (c # d # a0) = a \<and> read_text b0 = b"
        using s crlf x Cons by simp
      then show ?thesis by blast
    next
      case cr
      with 3(4) Cons have x: "x = CHR 0x0A" and r: "read_text (d # ds) = a' @ b" by simp_all
      from 3(2)[OF _ _ r] cr obtain a0 b0 where
        s: "d # ds = a0 @ b0" "read_text a0 = a'" "read_text b0 = b" by blast
      have "read_text (c # a0) = CHR 0x0A # read_text a0"
      proof (cases a0)
        case Nil
        with cr show ?thesis by simp
      next
        case (Cons e a1)
        with s(1) have "e = d" by simp
        with Cons cr show ?thesis by simp
      qed
      then have "c # d # ds = (c # a0) @ b0 \<and> read_text (c # a0) = a \<and> read_text b0 = b"
        using s x Cons by simp
      then show ?thesis by blast
    next
      case other
      with 3(4) Cons have x: "x = c" and r: "read_text (d # ds) = a' @ b" by simp_all
      from 3(3)[OF _ _ r] other obtain a0 b0 where
        s: "d # ds = a0 @ b0" "read_text a0 = a'" "read_text b0 = b" by blast
      have "c # d # ds = (c # a0) @ b0 \<and> read_text (c # a0) = a \<and> read_text b0 = b"
        using s x Cons other by (simp add: read_text_keep)
      then show ?thesis by blast
    qed
  qed
qed

subsection \<open>Whether a version is found does not depend on the line ends\<close>

lemma re_search_append_match:
  "match_at p x = Some y \<Longrightarrow> re_search p (pre @ x) \<noteq> None"
proof (induction pre)
  case Nil
  then obtain c cs where "x = c # cs" by (cases x) (auto simp: match_at_Nil)
  with Nil show ?case by (auto split: prod.splits)
next
  case (Cons a pre)
  then show ?case by (auto split: option.splits prod.splits)
qed

lemma re_search_found:
  "re_search p s \<noteq> None \<longleftrightarrow>
     (\<exists>pre m g rest. s = pre @ m @ rest \<and> match_at p (m @ rest) = Some (m, g, rest))"
proof
  assume "re_search p s \<noteq> None"
  then obtain pre m g rest where "re_search p s = Some (pre, m, g, rest)" by auto
  from re_search_Some[OF this] show
    "\<exists>pre m g rest. s = pre @ m @ rest \<and> match_at p (m @ rest) = Some (m, g, rest)" by blast
next
  assume "\<exists>pre m g rest. s = pre @ m @ rest \<and> match_at p (m @ rest) = Some (m, g, rest)"
  then show "re_search p s \<noteq> None" using re_search_append_match by blast
qed

lemma found_read_text:
  assumes cr: "CHR 0x0D \<notin> set pfx \<union> set qs \<union> set suf"
    and lf: "CHR 0x0A \<notin> set pfx \<union> set qs \<union> set suf"
  shows "(re_search (Quoted pfx qs suf) (read_text s) = None)
           = (re_search (Quoted pfx qs suf) s = None)"
proof -
  let ?p = "Quoted pfx qs suf"
  have fwd: "re_search ?p (read_text s) \<noteq> None" if "re_search ?p s \<noteq> None"
  proof -
    from that obtain pre m g rest where s: "s = pre @ m @ rest"
      and ma: "match_at ?p (m @ rest) = Some (m, g, rest)"
      unfolding re_search_found by blast
    from ma obtain q q' where m: "m = pfx @ q # g @ q' # suf" and q: "q \<in> set qs" "q' \<in> set qs"
      and g: "g \<noteq> []" "\<forall>c \<in> set g. c \<notin> set qs"
      unfolding match_at_Some by blast
    have qn: "q \<noteq> CHR 0x0A" "q' \<noteq> CHR 0x0A" "q \<noteq> CHR 0x0D" "q' \<noteq> CHR 0x0D"
      using q cr lf by auto
    have h: "hd (pfx @ q # g @ q' # suf @ rest) \<noteq> CHR 0x0A"
      using lf qn by (cases pfx) auto
    have 1: "read_text s = read_text pre @ read_text (pfx @ q # g @ q' # suf @ rest)"
      unfolding s m using read_text_append[of "pfx @ q # g @ q' # suf @ rest" pre] h by simp
    have 2: "read_text ((pfx @ [q]) @ g @ q' # suf @ rest)
               = (pfx @ [q]) @ read_text (g @ q' # suf @ rest)"
      using cr qn by (intro read_text_prefix) auto
    have 3: "read_text (g @ q' # suf @ rest) = read_text g @ read_text ((q' # suf) @ rest)"
      using read_text_append[of "q' # suf @ rest" g] qn by simp
    have 4: "read_text ((q' # suf) @ rest) = (q' # suf) @ read_text rest"
      using cr qn by (intro read_text_prefix) auto
    have e: "read_text s = read_text pre @ (pfx @ q # read_text g @ q' # suf) @ read_text rest"
      using 1 2 3 4 by simp
    have g': "read_text g \<noteq> []" using g(1) by (simp add: read_text_Nil)
    have gq: "\<forall>c \<in> set (read_text g). c \<notin> set qs"
      using read_text_set[of g] g(2) lf by auto
    have "match_at ?p ((pfx @ q # read_text g @ q' # suf) @ read_text rest)
            = Some (pfx @ q # read_text g @ q' # suf, read_text g, read_text rest)"
      unfolding match_at_Some using q g' gq by blast
    then show ?thesis unfolding e by (rule re_search_append_match)
  qed
  have bwd: "re_search ?p s \<noteq> None" if "re_search ?p (read_text s) \<noteq> None"
  proof -
    from that obtain pre m g rest where s: "read_text s = pre @ m @ rest"
      and ma: "match_at ?p (m @ rest) = Some (m, g, rest)"
      unfolding re_search_found by blast
    from ma obtain q q' where m: "m = pfx @ q # g @ q' # suf" and q: "q \<in> set qs" "q' \<in> set qs"
      and g: "g \<noteq> []" "\<forall>c \<in> set g. c \<notin> set qs"
      unfolding match_at_Some by blast
    have qn: "q \<noteq> CHR 0x0A" "q' \<noteq> CHR 0x0A" using q lf by auto
    from s m have "read_text s = pre @ ((pfx @ [q]) @ g @ (q' # suf) @ rest)" by simp
    from read_text_split[OF this] obtain p0 y0 where
      a: "s = p0 @ y0" "read_text y0 = (pfx @ [q]) @ g @ (q' # suf) @ rest" by blast
    from read_text_split[OF a(2)] obtain x0 z0 where
      b: "y0 = x0 @ z0" "read_text x0 = pfx @ [q]" "read_text z0 = g @ (q' # suf) @ rest" by blast
    from read_text_split[OF b(3)] obtain g0 w0 where
      c: "z0 = g0 @ w0" "read_text g0 = g" "read_text w0 = (q' # suf) @ rest" by blast
    from read_text_split[OF c(3)] obtain u0 r0 where
      d: "w0 = u0 @ r0" "read_text u0 = q' # suf" "read_text r0 = rest" by blast
    have "CHR 0x0A \<notin> set (read_text x0)" using b(2) lf qn by auto
    then have x0: "x0 = pfx @ [q]" using read_text_id[of x0] b(2) by simp
    have "CHR 0x0A \<notin> set (read_text u0)" using d(2) lf qn by auto
    then have u0: "u0 = q' # suf" using read_text_id[of u0] d(2) by simp
    have g0: "g0 \<noteq> []" using c(2) g(1) read_text_Nil[of g0] by auto
    have gq: "\<forall>c \<in> set g0. c \<notin> set qs"
    proof
      fix c assume c0: "c \<in> set g0"
      show "c \<notin> set qs"
      proof
        assume cq: "c \<in> set qs"
        then have "c \<noteq> CHR 0x0D" using cr by auto
        from read_text_keeps[OF c0 this] c(2) have "c \<in> set g" by simp
        with g(2) cq show False by blast
      qed
    qed
    have e: "s = p0 @ (pfx @ q # g0 @ q' # suf) @ r0"
      using a(1) b(1) c(1) d(1) x0 u0 by simp
    have "match_at ?p ((pfx @ q # g0 @ q' # suf) @ r0) = Some (pfx @ q # g0 @ q' # suf, g0, r0)"
      unfolding match_at_Some using q g0 gq by blast
    then show ?thesis unfolding e by (rule re_search_append_match)
  qed
  from fwd bwd show ?thesis by blast
qed

lemma found_read_text_init:
  "(re_search init_re (read_text s) = None) = (re_search init_re s = None)"
  unfolding init_re_def by (rule found_read_text) simp_all

lemma found_read_text_setup:
  "(re_search setup_re (read_text s) = None) = (re_search setup_re s = None)"
  unfolding setup_re_def by (rule found_read_text) simp_all

section \<open>Properties of the synchronizer, the writer and the entry flow\<close>

subsection \<open>Printing leaves the files alone\<close>

lemma print_files [simp]:
  "init_py (print l w) = init_py w" "setup_py (print l w) = setup_py w"
  "git_done (print l w) = git_done w" "stdout (print l w) = stdout w @ [l]"
  "linesep (print l w) = linesep w"
  by (simp_all add: print_def)

lemma get_current_version_print [simp]:
  "get_current_version (print l w) = get_current_version w"
  by (simp add: get_current_version_def)

lemma get_setup_version_print [simp]:
  "get_setup_version (print l w) = get_setup_version w"
  by (simp add: get_setup_version_def)

subsection \<open>A version that is not found\<close>

text \<open>
  Claim C7. If the pattern of \<^verbatim>\<open>setup.py\<close> matches nowhere in its text (and the one of
  \<^verbatim>\<open>__init__.py\<close> does), \<^verbatim>\<open>sync_versions\<close> raises nothing: it prints the warning,
  writes no file and returns \<^verbatim>\<open>False\<close>. If the pattern of \<^verbatim>\<open>__init__.py\<close> matches
  nowhere, the \<^verbatim>\<open>ValueError\<close> leaves \<^verbatim>\<open>sync_versions\<close>, and with it \<^verbatim>\<open>main\<close>, whatever
  the arguments, with nothing written or printed.
\<close>

theorem sync_versions_pattern_absence:
  "(re_search init_re (init_py w) \<noteq> None \<and> re_search setup_re (setup_py w) = None \<longrightarrow>
      sync_versions w = (Inr False, print (Warning (VersionNotFound ''setup.py'')) w) \<and>
      init_py (snd (sync_versions w)) = init_py w \<and>
      setup_py (snd (sync_versions w)) = setup_py w) \<and>
   (re_search init_re (init_py w) = None \<longrightarrow>
      sync_versions w = (Inl (ValueError (VersionNotFound ''__init__.py'')), w) \<and>
      main argv g w = (Inl (ValueError (VersionNotFound ''__init__.py'')), w))"
proof (intro conjI impI)
  assume "re_search init_re (init_py w) \<noteq> None \<and> re_search setup_re (setup_py w) = None"
  then have i: "re_search init_re (read_text (init_py w)) \<noteq> None"
    and s: "re_search setup_re (read_text (setup_py w)) = None"
    by (simp_all add: found_read_text_init found_read_text_setup)
  from i obtain x where x: "re_search init_re (read_text (init_py w)) = Some x" by auto
  show r: "sync_versions w = (Inr False, print (Warning (VersionNotFound ''setup.py'')) w)"
    using x s
    by (simp add: sync_versions_def sync_try_def get_current_version_def get_setup_version_def
             split: prod.splits)
  show "init_py (snd (sync_versions w)) = init_py w" by (simp add: r)
  show "setup_py (snd (sync_versions w)) = setup_py w" by (simp add: r)
next
  assume "re_search init_re (init_py w) = None"
  then have i: "re_search init_re (read_text (init_py w)) = None"
    by (simp add: found_read_text_init)
  then show r: "sync_versions w = (Inl (ValueError (VersionNotFound ''__init__.py'')), w)"
    by (simp add: sync_versions_def get_current_version_def)
  then show "main argv g w = (Inl (ValueError (VersionNotFound ''__init__.py'')), w)"
    by (simp add: main_def)
qed

theorem sync_versions_pattern_absence_witness:
  \<open>re_search init_re (init_py (files ''__version__ = "1.2.3"'' ''setup(name="x")'')) \<noteq> None \<and>
   re_search setup_re (setup_py (files ''__version__ = "1.2.3"'' ''setup(name="x")'')) = None \<and>
   sync_versions (files ''__version__ = "1.2.3"'' ''setup(name="x")'')
     = (Inr False, print (Warning (VersionNotFound ''setup.py''))
                     (files ''__version__ = "1.2.3"'' ''setup(name="x")'')) \<and>
   re_search init_re (init_py (files ''version = 1'' ''setup(version="1.2.0")'')) = None \<and>
   main [''bump_version.py'', ''patch''] no_git (files ''version = 1'' ''setup(version="1.2.0")'')
     = (Inl (ValueError (VersionNotFound ''__init__.py'')),
        files ''version = 1'' ''setup(version="1.2.0")'')\<close>
proof -
  have a: \<open>re_search init_re (init_py (files ''__version__ = "1.2.3"'' ''setup(name="x")'')) \<noteq> None\<close>
    by code_simp
  have b: \<open>re_search setup_re (setup_py (files ''__version__ = "1.2.3"'' ''setup(name="x")'')) = None\<close>
    by code_simp
  have c: \<open>re_search init_re (init_py (files ''version = 1'' ''setup(version="1.2.0")'')) = None\<close>
    by code_simp
  show ?thesis
    using sync_versions_pattern_absence
            [of \<open>files ''__version__ = "1.2.3"'' ''setup(name="x")''\<close>]
          sync_versions_pattern_absence
            [of \<open>files ''version = 1'' ''setup(version="1.2.0")''\<close>
                \<open>[''bump_version.py'', ''patch'']\<close> no_git]
          a b c
    by blast
qed

subsection \<open>Commit retrieval\<close>

text \<open>
  Claim C9. The last tag is \<^verbatim>\<open>v1.0.0\<close> and \<^verbatim>\<open>git log v1.0.0..HEAD\<close> exits with a
  non-zero status. The handler written for "no tags exist yet" catches this failure
  too: the function returns the whole history instead of failing.
\<close>

theorem get_commits_log_range_failure_gives_full_history:
  "get_commits_since_last_tag log_range_fails = Inr [''abc1234 feat: first'']"
  by code_simp

text \<open>
  The three ways through \<^verbatim>\<open>get_commits_since_last_tag\<close>: with a tag and a log of the
  range, the lines of that log; without a tag, the lines of the whole log; with a tag
  and a failing log of the range, the handler again.
\<close>

lemma get_commits_since_last_tag_cases:
  "(describe_tags g = Some out \<and> log_range g (trim str_space out @ ''..HEAD'') = Some out' \<longrightarrow>
      get_commits_since_last_tag g = Inr (commit_lines out')) \<and>
   (describe_tags g = None \<and> log_all g = Some out \<longrightarrow>
      get_commits_since_last_tag g = Inr (commit_lines out)) \<and>
   (describe_tags g = Some out \<and> log_range g (trim str_space out @ ''..HEAD'') = None \<longrightarrow>
      get_commits_since_last_tag g = all_commits g)"
  by (simp add: get_commits_since_last_tag_def all_commits_def Let_def)

subsection \<open>Writing and reading back the version of \<^verbatim>\<open>setup.py\<close>\<close>

text \<open>
  Claim C3. The version assignment of \<^verbatim>\<open>setup.py\<close> is the last argument and has no
  comma after it. The pattern that reads it matches; the pattern that
  \<^verbatim>\<open>update_version_files\<close> substitutes asks for the comma and matches nowhere, so the
  file keeps its text and reading the version back gives the old version, not the
  new one.
\<close>

theorem update_version_files_without_comma:
  \<open>get_setup_version
     (snd (update_version_files ''1.0.1''
             (files ''__version__ = "1.0.0"'' ''setup(name="x", version="1.0.0")'')))
     = Inr ''1.0.0''\<close>
  by code_simp

subsection \<open>An invalid argument\<close>

lemma sync_try_init_py: "init_py (snd (sync_try v w)) = init_py w"
  by (simp add: sync_try_def Let_def split: sum.splits)

lemma sync_try_git_done: "git_done (snd (sync_try v w)) = git_done w"
  by (simp add: sync_try_def Let_def split: sum.splits)

lemma sync_try_setup_py:
  "setup_py (snd (sync_try v w)) \<noteq> setup_py w \<Longrightarrow>
     \<exists>v'. get_setup_version w = Inr v' \<and> v \<noteq> v'"
  by (auto simp: sync_try_def Let_def split: sum.splits if_splits)

lemma sync_versions_snd:
  "snd (sync_versions w) = w \<or>
   (\<exists>v. get_current_version w = Inr v \<and>
        (snd (sync_versions w) = snd (sync_try v w) \<or>
         (\<exists>e. snd (sync_versions w) = print (Warning e) (snd (sync_try v w)))))"
  by (cases "get_current_version w")
     (auto simp: sync_versions_def split: prod.splits sum.splits error.splits)

lemma sync_versions_init_py: "init_py (snd (sync_versions w)) = init_py w"
  using sync_versions_snd[of w] by (auto simp: sync_try_init_py)

lemma sync_versions_git_done: "git_done (snd (sync_versions w)) = git_done w"
  using sync_versions_snd[of w] by (auto simp: sync_try_git_done)

lemma sync_versions_setup_py:
  "setup_py (snd (sync_versions w)) \<noteq> setup_py w \<Longrightarrow>
     \<exists>v v'. get_current_version w = Inr v \<and> get_setup_version w = Inr v' \<and> v \<noteq> v'"
  using sync_versions_snd[of w] by (auto dest: sync_try_setup_py)

lemma sync_versions_in_sync:
  "get_current_version w = Inr v \<Longrightarrow> get_setup_version w = Inr v \<Longrightarrow>
     sync_versions w = (Inr False, print (InSync v) w)"
  by (simp add: sync_versions_def sync_try_def)

lemma main_invalid_argument_eq:
  "1 < length argv \<Longrightarrow> argv ! 1 \<notin> {''major'', ''minor'', ''patch'', ''sync''} \<Longrightarrow>
     main argv g w =
       (case sync_versions w of
          (Inl e, w1) \<Rightarrow> (Inl e, w1)
        | (Inr b, w1) \<Rightarrow> (Inl (SystemExit 1), print Usage w1))"
  by (simp add: main_def Let_def split: prod.splits sum.splits)

text \<open>
  Claim C4, amended. \<^verbatim>\<open>main\<close> runs \<^verbatim>\<open>sync_versions\<close> before it looks at the argument.
  With an argument other than \<^verbatim>\<open>major\<close>, \<^verbatim>\<open>minor\<close>, \<^verbatim>\<open>patch\<close> and \<^verbatim>\<open>sync\<close>: if
  \<^verbatim>\<open>sync_versions\<close> raises, that exception ends the run; otherwise the usage message is
  printed, the exit status is 1, and the state is the one \<^verbatim>\<open>sync_versions\<close> left, with
  nothing written after it. \<^verbatim>\<open>__init__.py\<close> is never written and no version-control
  command is run. \<^verbatim>\<open>setup.py\<close> changes only when both versions are found and differ;
  when they are equal, no file changes at all.
\<close>

theorem main_invalid_argument:
  "1 < length argv \<Longrightarrow> argv ! 1 \<notin> {''major'', ''minor'', ''patch'', ''sync''} \<Longrightarrow>
     main argv g w =
       (case sync_versions w of
          (Inl e, w1) \<Rightarrow> (Inl e, w1)
        | (Inr b, w1) \<Rightarrow> (Inl (SystemExit 1), print Usage w1)) \<and>
     init_py (snd (main argv g w)) = init_py w \<and>
     git_done (snd (main argv g w)) = git_done w \<and>
     (setup_py (snd (main argv g w)) \<noteq> setup_py w \<longrightarrow>
        (\<exists>v v'. get_current_version w = Inr v \<and> get_setup_version w = Inr v' \<and> v \<noteq> v')) \<and>
     (\<forall>v. get_current_version w = Inr v \<and> get_setup_version w = Inr v \<longrightarrow>
        main argv g w = (Inl (SystemExit 1), print Usage (print (InSync v) w)))"
proof -
  assume a: "1 < length argv" "argv ! 1 \<notin> {''major'', ''minor'', ''patch'', ''sync''}"
  note m = main_invalid_argument_eq[OF a, of g w]
  have s: "snd (main argv g w) = snd (sync_versions w) \<or>
           snd (main argv g w) = print Usage (snd (sync_versions w))"
    unfolding m by (auto split: prod.splits sum.splits)
  have i: "init_py (snd (main argv g w)) = init_py w"
    using s by (auto simp: sync_versions_init_py)
  have d: "git_done (snd (main argv g w)) = git_done w"
    using s by (auto simp: sync_versions_git_done)
  have u: "setup_py (snd (main argv g w)) = setup_py (snd (sync_versions w))"
    using s by auto
  have c: "setup_py (snd (main argv g w)) \<noteq> setup_py w \<longrightarrow>
        (\<exists>v v'. get_current_version w = Inr v \<and> get_setup_version w = Inr v' \<and> v \<noteq> v')"
    unfolding u using sync_versions_setup_py[of w] by blast
  have e: "\<forall>v. get_current_version w = Inr v \<and> get_setup_version w = Inr v \<longrightarrow>
        main argv g w = (Inl (SystemExit 1), print Usage (print (InSync v) w))"
    unfolding m by (auto simp: sync_versions_in_sync)
  show ?thesis using m i d c e by blast
qed

theorem main_invalid_argument_witness:
  \<open>1 < length [''bump_version.py'', ''bogus''] \<and>
   [''bump_version.py'', ''bogus''] ! 1 \<notin> {''major'', ''minor'', ''patch'', ''sync''} \<and>
   get_current_version (files ''__version__ = "1.2.3"'' ''setup(version="1.2.3")'') = Inr ''1.2.3'' \<and>
   get_setup_version (files ''__version__ = "1.2.3"'' ''setup(version="1.2.3")'') = Inr ''1.2.3'' \<and>
   main [''bump_version.py'', ''bogus''] no_git
        (files ''__version__ = "1.2.3"'' ''setup(version="1.2.3")'')
     = (Inl (SystemExit 1),
        print Usage (print (InSync ''1.2.3'')
          (files ''__version__ = "1.2.3"'' ''setup(version="1.2.3")'')))\<close>
proof -
  have a: "1 < length [''bump_version.py'', ''bogus'']"
    "[''bump_version.py'', ''bogus''] ! 1 \<notin> {''major'', ''minor'', ''patch'', ''sync''}"
    by simp_all
  have v: \<open>get_current_version (files ''__version__ = "1.2.3"'' ''setup(version="1.2.3")'')
             = Inr ''1.2.3''\<close>
    \<open>get_setup_version (files ''__version__ = "1.2.3"'' ''setup(version="1.2.3")'')
             = Inr ''1.2.3''\<close>
    by code_simp+
  show ?thesis
    using main_invalid_argument[OF a, of no_git
            \<open>files ''__version__ = "1.2.3"'' ''setup(version="1.2.3")''\<close>] a v
    by blast
qed

text \<open>
  Claim C4 as stated fails: the versions differ, the argument is \<^verbatim>\<open>bogus\<close>, the
  program exits with status 1, and \<^verbatim>\<open>setup.py\<close> has been rewritten by then.
\<close>

theorem main_invalid_argument_rewrites_setup:
  \<open>fst (main [''bump_version.py'', ''bogus''] no_git
           (files ''__version__ = "1.2.3"'' ''setup(version="1.2.0")''))
     = Inl (SystemExit 1) \<and>
   setup_py (files ''__version__ = "1.2.3"'' ''setup(version="1.2.0")'')
     = ''setup(version="1.2.0")'' \<and>
   setup_py (snd (main [''bump_version.py'', ''bogus''] no_git
                    (files ''__version__ = "1.2.3"'' ''setup(version="1.2.0")'')))
     = ''setup(version="1.2.3")''\<close>
  by code_simp

section \<open>What the writers change\<close>

text \<open>
  Claim C5. The readers take the version from the leftmost match of the pattern. The
  writers substitute with \<^verbatim>\<open>re.sub\<close> and no count, which rewrites every match: with a
  second match in the file (here inside \<^verbatim>\<open>min_version="3.6"\<close>), text after the version
  field changes too, in \<^verbatim>\<open>sync_versions\<close> and in \<^verbatim>\<open>update_version_files\<close>.
\<close>

theorem writers_change_more_than_first_field:
  \<open>setup_py (snd (sync_versions
      (files ''__version__ = "1.2.3"'' ''setup(version="1.2.0", min_version="3.6")'')))
     = ''setup(version="1.2.3", min_version="1.2.3")'' \<and>
   setup_py (snd (update_version_files ''1.2.1''
      (files ''__version__ = "1.2.0"'' ''setup(version="1.2.0", min_version="3.6",)'')))
     = ''setup(version="1.2.1", min_version="1.2.1",)'' \<and>
   \<not> differs_only_in_first_field setup_re
       ''setup(version="1.2.0", min_version="3.6")''
       (setup_py (snd (sync_versions
          (files ''__version__ = "1.2.3"'' ''setup(version="1.2.0", min_version="3.6")'')))) \<and>
   \<not> differs_only_in_first_field setup_comma_re
       ''setup(version="1.2.0", min_version="3.6",)''
       (setup_py (snd (update_version_files ''1.2.1''
          (files ''__version__ = "1.2.0"'' ''setup(version="1.2.0", min_version="3.6",)''))))\<close>
  by code_simp

text \<open>
  The writers also put the line ends of the whole file into one form: a file stored
  with carriage return and line feed is read with line feeds and written back with
  the line separator of the platform, here the line feed.
\<close>

lemma sync_versions_rewrites_line_ends:
  \<open>setup_py (snd (sync_versions
      (files ''__version__ = "1.2.3"''
             (''setup('' @ [CHR 0x0D, CHR 0x0A] @ ''version="1.2.0",'' @ [CHR 0x0D, CHR 0x0A] @ '')''))))
     = ''setup('' @ [CHR 0x0A] @ ''version="1.2.3",'' @ [CHR 0x0A] @ '')''\<close>
  by code_simp

section \<open>Running the synchronizer twice\<close>

text \<open>
  Claim C6. The version of \<^verbatim>\<open>__init__.py\<close> is \<^verbatim>\<open>1.0\n\<close>, with a backslash and the letter n.
  \<^verbatim>\<open>sync_versions\<close> passes it to \<^verbatim>\<open>re.sub\<close> inside the replacement, where the two
  characters are an escape for a line feed. After the first run \<^verbatim>\<open>setup.py\<close> holds the
  version \<^verbatim>\<open>1.0\<close> followed by a line feed, which is not the version of \<^verbatim>\<open>__init__.py\<close>:
  the second run finds a mismatch again and returns \<^verbatim>\<open>True\<close>.
\<close>

theorem sync_versions_twice_with_backslash:
  \<open>get_current_version (files (''__version__ = "1.0'' @ [CHR 0x5C] @ ''n"'') ''setup(version="0.9")'')
     = Inr (''1.0'' @ [CHR 0x5C] @ ''n'') \<and>
   get_setup_version (files (''__version__ = "1.0'' @ [CHR 0x5C] @ ''n"'') ''setup(version="0.9")'')
     = Inr ''0.9'' \<and>
   get_setup_version (snd (sync_versions
      (files (''__version__ = "1.0'' @ [CHR 0x5C] @ ''n"'') ''setup(version="0.9")'')))
     = Inr (''1.0'' @ [CHR 0x0A]) \<and>
   fst (sync_versions (snd (sync_versions
      (files (''__version__ = "1.0'' @ [CHR 0x5C] @ ''n"'') ''setup(version="0.9")''))))
     = Inr True\<close>
  by code_simp

lemma write_text_Cons:
  "write_text sep (c # t) = (if c = CHR 0x0A then sep else [c]) @ write_text sep t"
  by (simp add: write_text_def)

lemma read_text_write_text:
  assumes "sep = [CHR 0x0A] \<or> sep = [CHR 0x0D, CHR 0x0A]" "CHR 0x0D \<notin> set t"
  shows "read_text (write_text sep t) = t"
  using assms(2)
proof (induction t)
  case Nil
  show ?case by (simp add: write_text_def)
next
  case (Cons c t)
  then have ih: "read_text (write_text sep t) = t" and c: "c \<noteq> CHR 0x0D" by auto
  show ?case
  proof (cases "c = CHR 0x0A")
    case True
    from assms(1) show ?thesis
    proof
      assume "sep = [CHR 0x0A]"
      with True ih show ?thesis by (simp add: write_text_Cons read_text_keep)
    next
      assume "sep = [CHR 0x0D, CHR 0x0A]"
      with True ih show ?thesis by (simp add: write_text_Cons)
    qed
  next
    case False
    with c ih show ?thesis by (simp add: write_text_Cons read_text_keep)
  qed
qed

lemma sub_from_literal_set:
  "set (sub_from p (map TChar r) 0 s) \<subseteq> set s \<union> set r"
proof (induction s rule: length_induct)
  case (1 s)
  show ?case
  proof (cases s)
    case Nil
    then show ?thesis by simp
  next
    case (Cons c cs)
    show ?thesis
    proof (cases "match_at p s")
      case None
      then have "sub_from p (map TChar r) 0 s = c # sub_from p (map TChar r) 0 cs"
        using Cons by simp
      moreover have "set (sub_from p (map TChar r) 0 cs) \<subseteq> set cs \<union> set r"
        using 1 Cons by simp
      ultimately show ?thesis using Cons by auto
    next
      case (Some x)
      then obtain m g rest where x: "match_at p s = Some (m, g, rest)" by (cases x) auto
      from match_at_decomp[OF x] have d: "s = m @ rest" "length rest < length s" by auto
      with 1 have "set (sub_from p (map TChar r) 0 rest) \<subseteq> set rest \<union> set r" by simp
      then show ?thesis
        unfolding sub_from_match[OF x] expand_literal using d(1) by auto
    qed
  qed
qed

lemma current_version_shape:
  assumes "get_current_version w = Inr v"
  shows "v \<noteq> [] \<and> CHR 0x22 \<notin> set v \<and> CHR 0x0D \<notin> set v"
proof -
  from assms obtain pre m rest where
    r: "re_search init_re (read_text (init_py w)) = Some (pre, m, v, rest)"
    by (auto simp: get_current_version_def split: option.splits)
  from re_search_Some[OF r] have e: "read_text (init_py w) = pre @ m @ rest"
    and ma: "match_at init_re (m @ rest) = Some (m, v, rest)" by blast+
  from ma obtain q q' where m: "m = ''__version__ = '' @ q # v @ q' # []"
    and v: "v \<noteq> []" "\<forall>c \<in> set v. c \<notin> set [CHR 0x22, CHR 0x27]"
    unfolding init_re_def match_at_Some by blast
  have "set v \<subseteq> set (read_text (init_py w))" unfolding e m by auto
  then have "CHR 0x0D \<notin> set v" using read_text_no_CR[of "init_py w"] by blast
  with v show ?thesis by auto
qed

lemma versions_depend_on_files:
  "init_py w1 = init_py w2 \<Longrightarrow> get_current_version w1 = get_current_version w2"
  "setup_py w1 = setup_py w2 \<Longrightarrow> get_setup_version w1 = get_setup_version w2"
  by (simp_all add: get_current_version_def get_setup_version_def)

lemma sync_versions_rewrite:
  assumes c: "get_current_version w = Inr v" and s: "get_setup_version w = Inr v'"
    and ne: "v \<noteq> v'" and b: "CHR 0x5C \<notin> set v"
    and l: "linesep w = [CHR 0x0A] \<or> linesep w = [CHR 0x0D, CHR 0x0A]"
  shows "fst (sync_versions w) = Inr True \<and> get_setup_version (snd (sync_versions w)) = Inr v"
proof -
  define repl where "repl = ''version='' @ [CHR 0x22] @ v @ [CHR 0x22]"
  define t where "t = map TChar repl"
  define new where "new = sub_from setup_re t 0 (read_text (setup_py w))"
  from s obtain pre m rest where
    r: "re_search setup_re (read_text (setup_py w)) = Some (pre, m, v', rest)"
    by (auto simp: get_setup_version_def split: option.splits)
  from current_version_shape[OF c]
  have vs: "v \<noteq> []" "CHR 0x22 \<notin> set v" and vcr: "CHR 0x0D \<notin> set v" by simp_all
  have lit: "CHR 0x5C \<notin> set repl" using b by (simp add: repl_def)
  have sub: "re_sub setup_re repl (read_text (setup_py w)) = Inr new"
    unfolding new_def t_def by (rule re_sub_literal[OF lit])
  have "new = pre @ expand t m @ sub_from setup_re t 0 rest"
    unfolding new_def by (rule sub_from_search[OF r])
  also have "expand t m = repl" unfolding t_def by (rule expand_literal)
  finally have new: "new = pre @ (''version='' @ CHR 0x22 # v @ [CHR 0x22]) @
                             sub_from setup_re t 0 rest"
    by (simp add: repl_def)
  have "set new \<subseteq> set (read_text (setup_py w)) \<union> set repl"
    unfolding new_def t_def by (rule sub_from_literal_set)
  moreover have "CHR 0x0D \<notin> set repl" using vcr by (simp add: repl_def)
  ultimately have ncr: "CHR 0x0D \<notin> set new" using read_text_no_CR[of "setup_py w"] by blast
  have readback: "read_text (write_text (linesep w) new) = new"
    by (rule read_text_write_text[OF l ncr])
  have tr: "sync_try v w =
      (Inr True, print (UpdatedSetup v)
         ((print Syncing (print (SetupIs v') (print (InitIs v) (print MismatchDetected w))))
            \<lparr>setup_py := write_text (linesep w) new\<rparr>))"
    using s ne sub unfolding repl_def by (simp add: sync_try_def Let_def)
  have sv: "sync_versions w = sync_try v w"
    using c by (simp add: sync_versions_def tr)
  have sp: "setup_py (snd (sync_versions w)) = write_text (linesep w) new" by (simp add: sv tr)
  have "re_search setup_re new =
          Some (pre, ''version='' @ CHR 0x22 # v @ [CHR 0x22], v, sub_from setup_re t 0 rest)"
    unfolding new using r vs unfolding setup_re_def by (rule re_search_after_rewrite)
  then have "get_setup_version (snd (sync_versions w)) = Inr v"
    by (simp add: get_setup_version_def sp readback)
  then show ?thesis by (simp add: sv tr)
qed

text \<open>
  When the version of \<^verbatim>\<open>__init__.py\<close> has no backslash, \<^verbatim>\<open>re.sub\<close> inserts it as it is,
  reading \<^verbatim>\<open>setup.py\<close> back gives that version, and a second run of \<^verbatim>\<open>sync_versions\<close>
  returns \<^verbatim>\<open>False\<close> and changes no file. The line separator of the platform is the
  line feed, or carriage return and line feed.
\<close>

lemma sync_versions_idempotent_without_backslash:
  assumes c: "get_current_version w = Inr v" and s: "get_setup_version w = Inr v'"
    and b: "CHR 0x5C \<notin> set v"
    and l: "linesep w = [CHR 0x0A] \<or> linesep w = [CHR 0x0D, CHR 0x0A]"
  shows "fst (sync_versions (snd (sync_versions w))) = Inr False \<and>
         init_py (snd (sync_versions (snd (sync_versions w)))) = init_py (snd (sync_versions w)) \<and>
         setup_py (snd (sync_versions (snd (sync_versions w)))) = setup_py (snd (sync_versions w))"
proof -
  let ?w1 = "snd (sync_versions w)"
  have c1: "get_current_version ?w1 = Inr v"
    using versions_depend_on_files(1)[OF sync_versions_init_py[of w]] c by simp
  have s1: "get_setup_version ?w1 = Inr v"
  proof (cases "v = v'")
    case True
    with c s have "sync_versions w = (Inr False, print (InSync v) w)"
      by (simp add: sync_versions_in_sync)
    with s True show ?thesis by simp
  next
    case False
    from sync_versions_rewrite[OF c s False b l] show ?thesis by simp
  qed
  from sync_versions_in_sync[OF c1 s1] show ?thesis by simp
qed

end
